theory Spec2Isabelle
  imports Main "HOL-Library.Word"
begin

unbundle bit_operations_syntax

section \<open>Machine types of the kernel library\<close>

text \<open>
  The kernels of \<^verbatim>\<open>csrc/sora_ext_lib.cpp\<close> work on fixed-width integers. A value of
  width \<open>w\<close> is a \<open>w word\<close>: \<open>+\<close>, \<open>-\<close> and \<open>*\<close> wrap, \<open>sint\<close> reads it in two's
  complement, \<open>scast\<close> sign-extends (the promotion of a signed operand to \<^verbatim>\<open>int\<close>),
  \<open>ucast\<close> zero-extends or truncates (the promotion of an unsigned operand, and the
  conversion back on assignment).
\<close>

type_synonym int8 = "8 word"
type_synonym int16 = "16 word"
type_synonym int32 = "32 word"
type_synonym num16 = "16 word"
type_synonym num32 = "32 word"
type_synonym unum8 = "8 word"
type_synonym unum16 = "16 word"
type_synonym unum32 = "32 word"
type_synonym unum64 = "64 word"
type_synonym m128i = "128 word"

text \<open>\<^verbatim>\<open>struct complex8\<close>, \<^verbatim>\<open>complex16\<close> and \<^verbatim>\<open>complex32\<close>: a pair of components.\<close>

record 'a cplx =
  re :: 'a
  im :: 'a

type_synonym complex8 = "int8 cplx"
type_synonym complex16 = "int16 cplx"
type_synonym complex32 = "int32 cplx"

subsection \<open>C integer division and loops\<close>

text \<open>C's \<^verbatim>\<open>/\<close> truncates towards zero and \<^verbatim>\<open>%\<close> is its remainder.\<close>

definition c_div :: "int \<Rightarrow> int \<Rightarrow> int" where
  "c_div a b = sgn a * sgn b * (\<bar>a\<bar> div \<bar>b\<bar>)"

definition c_mod :: "int \<Rightarrow> int \<Rightarrow> int" where
  "c_mod a b = a - c_div a b * b"

text \<open>\<^verbatim>\<open>for (int i = lo; i < hi; i++) body\<close>, the state threaded through the body.\<close>

definition for_loop :: "int \<Rightarrow> int \<Rightarrow> (int \<Rightarrow> 's \<Rightarrow> 's) \<Rightarrow> 's \<Rightarrow> 's" where
  "for_loop lo hi body s = fold body [lo..hi - 1] s"

subsection \<open>Reinterpreting memory\<close>

text \<open>
  A buffer is a list of its elements. A pointer cast reads several consecutive elements
  as one wider value, the first element in the least significant position (x86 is
  little-endian): \<open>of_lanes\<close> builds the wide value and \<open>lane k\<close> reads its \<open>k\<close>-th
  element back.
\<close>

definition of_lanes :: "'a::len word list \<Rightarrow> 'b::len word" where
  "of_lanes ws = word_of_int (horner_sum uint (2 ^ LENGTH('a)) ws)"

definition lane :: "nat \<Rightarrow> 'b::len word \<Rightarrow> 'a::len word" where
  "lane k v = ucast (drop_bit (k * LENGTH('a)) v)"

definition lanes :: "nat \<Rightarrow> 'b::len word \<Rightarrow> 'a::len word list" where
  "lanes n v = map (\<lambda>k. lane k v) [0..<n]"

text \<open>
  \<^verbatim>\<open>*(T *)(p + off)\<close> as a read and as a write, for a buffer \<open>mem\<close> of narrower elements
  and an offset counted in elements. A write beyond the end of the list is dropped (in C
  it is a buffer overrun; the theorems below assume buffers that are long enough).
\<close>

definition load_w :: "'a::len word list \<Rightarrow> nat \<Rightarrow> 'b::len word" where
  "load_w mem off = of_lanes (take (LENGTH('b) div LENGTH('a)) (drop off mem))"

definition store_w :: "'a::len word list \<Rightarrow> nat \<Rightarrow> 'b::len word \<Rightarrow> 'a word list" where
  "store_w mem off v =
     fold (\<lambda>k m. m[off + k := lane k v]) [0..<LENGTH('b) div LENGTH('a)] mem"

text \<open>
  An array of complex numbers seen as the flat array of its components
  (\<^verbatim>\<open>re\<close> first), as \<^verbatim>\<open>(unum16*) x\<close> and \<^verbatim>\<open>(__m128i*) x\<close> see it, and back.
\<close>

fun flat :: "'a cplx list \<Rightarrow> 'a list" where
  "flat [] = []"
| "flat (c # cs) = re c # im c # flat cs"

fun unflat :: "'a list \<Rightarrow> 'a cplx list" where
  "unflat (r # i # rest) = \<lparr>re = r, im = i\<rparr> # unflat rest"
| "unflat _ = []"

subsection \<open>SSE2 intrinsics\<close>

text \<open>
  The intrinsics of \<^verbatim>\<open>emmintrin.h\<close> the kernels call, each with the meaning Intel's
  intrinsics guide gives it. A register \<^verbatim>\<open>__m128i\<close> is a 128-bit word; \<open>epi16\<close> and
  \<open>epi32\<close> are its eight 16-bit and four 32-bit lanes.
\<close>

definition epi16 :: "m128i \<Rightarrow> int16 list" where
  "epi16 v = lanes 8 v"

definition epi32 :: "m128i \<Rightarrow> int32 list" where
  "epi32 v = lanes 4 v"

definition mm_loadu_si128 :: "'a::len word list \<Rightarrow> nat \<Rightarrow> m128i" where
  "mm_loadu_si128 mem off = load_w mem off"

definition mm_storeu_si128 :: "'a::len word list \<Rightarrow> nat \<Rightarrow> m128i \<Rightarrow> 'a word list" where
  "mm_storeu_si128 mem off v = store_w mem off v"

definition mm_add_epi16 :: "m128i \<Rightarrow> m128i \<Rightarrow> m128i" where
  "mm_add_epi16 a b = of_lanes (map2 (+) (epi16 a) (epi16 b))"

definition mm_add_epi32 :: "m128i \<Rightarrow> m128i \<Rightarrow> m128i" where
  "mm_add_epi32 a b = of_lanes (map2 (+) (epi32 a) (epi32 b))"

definition mm_sub_epi16 :: "m128i \<Rightarrow> m128i \<Rightarrow> m128i" where
  "mm_sub_epi16 a b = of_lanes (map2 (-) (epi16 a) (epi16 b))"

definition mm_sub_epi32 :: "m128i \<Rightarrow> m128i \<Rightarrow> m128i" where
  "mm_sub_epi32 a b = of_lanes (map2 (-) (epi32 a) (epi32 b))"

text \<open>
  The shift count of the immediate shifts is the low byte of the \<^verbatim>\<open>int\<close> argument. A
  count above the lane width fills the lane with the sign bit (\<^verbatim>\<open>srai\<close>) or with zeros
  (\<^verbatim>\<open>slli\<close>), which is what \<open>signed_drop_bit\<close> and \<open>push_bit\<close> do.
\<close>

definition shift_count :: "int \<Rightarrow> nat" where
  "shift_count shift = nat (shift mod 256)"

definition mm_srai_epi16 :: "m128i \<Rightarrow> int \<Rightarrow> m128i" where
  "mm_srai_epi16 a shift = of_lanes (map (signed_drop_bit (shift_count shift)) (epi16 a))"

definition mm_srai_epi32 :: "m128i \<Rightarrow> int \<Rightarrow> m128i" where
  "mm_srai_epi32 a shift = of_lanes (map (signed_drop_bit (shift_count shift)) (epi32 a))"

definition mm_slli_epi16 :: "m128i \<Rightarrow> int \<Rightarrow> m128i" where
  "mm_slli_epi16 a shift = of_lanes (map (push_bit (shift_count shift)) (epi16 a))"

definition mm_slli_epi32 :: "m128i \<Rightarrow> int \<Rightarrow> m128i" where
  "mm_slli_epi32 a shift = of_lanes (map (push_bit (shift_count shift)) (epi32 a))"

definition mm_and_si128 :: "m128i \<Rightarrow> m128i \<Rightarrow> m128i" where
  "mm_and_si128 a b = a AND b"

definition mm_andnot_si128 :: "m128i \<Rightarrow> m128i \<Rightarrow> m128i" where
  "mm_andnot_si128 a b = (NOT a) AND b"

definition mm_or_si128 :: "m128i \<Rightarrow> m128i \<Rightarrow> m128i" where
  "mm_or_si128 a b = a OR b"

definition mm_xor_si128 :: "m128i \<Rightarrow> m128i \<Rightarrow> m128i" where
  "mm_xor_si128 a b = a XOR b"

definition mm_set1_epi32 :: "int32 \<Rightarrow> m128i" where
  "mm_set1_epi32 x = of_lanes (replicate 4 x)"

text \<open>
  \<^verbatim>\<open>_MM_SHUFFLE(z, y, x, w)\<close> is \<^verbatim>\<open>(z << 6) | (y << 4) | (x << 2) | w\<close>; selector \<open>k\<close> of an
  immediate is its \<open>k\<close>-th pair of bits. \<^verbatim>\<open>shufflehi\<close> permutes lanes 4..7 and copies lanes
  0..3, \<^verbatim>\<open>shufflelo\<close> permutes lanes 0..3 and copies lanes 4..7.
\<close>

definition MM_SHUFFLE :: "nat \<Rightarrow> nat \<Rightarrow> nat \<Rightarrow> nat \<Rightarrow> nat" where
  "MM_SHUFFLE z y x w = z * 64 + y * 16 + x * 4 + w"

definition shuffle_sel :: "nat \<Rightarrow> nat \<Rightarrow> nat" where
  "shuffle_sel imm k = (imm div 4 ^ k) mod 4"

definition mm_shufflehi_epi16 :: "m128i \<Rightarrow> nat \<Rightarrow> m128i" where
  "mm_shufflehi_epi16 a imm =
     (let l = epi16 a
      in of_lanes (take 4 l @ map (\<lambda>k. l ! (4 + shuffle_sel imm k)) [0..<4]))"

definition mm_shufflelo_epi16 :: "m128i \<Rightarrow> nat \<Rightarrow> m128i" where
  "mm_shufflelo_epi16 a imm =
     (let l = epi16 a
      in of_lanes (map (\<lambda>k. l ! shuffle_sel imm k) [0..<4] @ drop 4 l))"

text \<open>
  \<^verbatim>\<open>_mm_madd_epi16\<close>: the signed 16-bit lanes are multiplied into 32 bits and adjacent
  products are added, in 32 bits.
\<close>

definition madd_pair :: "int16 \<Rightarrow> int16 \<Rightarrow> int16 \<Rightarrow> int16 \<Rightarrow> int32" where
  "madd_pair a0 a1 b0 b1 = scast a0 * scast b0 + scast a1 * scast b1"

definition mm_madd_epi16 :: "m128i \<Rightarrow> m128i \<Rightarrow> m128i" where
  "mm_madd_epi16 a b =
     (let x = epi16 a; y = epi16 b
      in of_lanes (map (\<lambda>j. madd_pair (x ! (2 * j)) (x ! (2 * j + 1)) (y ! (2 * j)) (y ! (2 * j + 1)))
                       [0..<4]))"

section \<open>Vector arithmetic kernels\<close>

text \<open>
  Every kernel takes its output buffer and returns it updated, next to the \<^verbatim>\<open>int\<close> it
  returns. The buffers of one call are separate lists. Lengths and shift amounts are C
  \<^verbatim>\<open>int\<close>s, here \<open>int\<close>.
\<close>

subsection \<open>\<^verbatim>\<open>c = a + b\<close>\<close>

definition ext_v_add_complex16 ::
  "complex16 list \<Rightarrow> int \<Rightarrow> complex16 list \<Rightarrow> int \<Rightarrow> complex16 list \<Rightarrow> int \<Rightarrow> complex16 list \<times> int" where
  "ext_v_add_complex16 c len a unused_2 b unused_1 =
     (let wlen = 4;
          c1 = for_loop 0 (c_div len wlen) (\<lambda>i c.
                 let ma = mm_loadu_si128 (flat a) (8 * nat i);
                     mb = mm_loadu_si128 (flat b) (8 * nat i)
                 in unflat (mm_storeu_si128 (flat c) (8 * nat i) (mm_add_epi16 ma mb))) c;
          c2 = for_loop (c_div len wlen * wlen) len (\<lambda>i c.
                 c[nat i := \<lparr>re = ucast ((scast (re (a ! nat i)) :: int32) + scast (re (b ! nat i))),
                             im = ucast ((scast (im (a ! nat i)) :: int32) + scast (im (b ! nat i)))\<rparr>]) c1
      in (c2, 0))"

definition ext_v_add_complex32 ::
  "complex32 list \<Rightarrow> int \<Rightarrow> complex32 list \<Rightarrow> int \<Rightarrow> complex32 list \<Rightarrow> int \<Rightarrow> complex32 list \<times> int" where
  "ext_v_add_complex32 c len a unused_2 b unused_1 =
     (let wlen = 2;
          c1 = for_loop 0 (c_div len wlen) (\<lambda>i c.
                 let ma = mm_loadu_si128 (flat a) (4 * nat i);
                     mb = mm_loadu_si128 (flat b) (4 * nat i)
                 in unflat (mm_storeu_si128 (flat c) (4 * nat i) (mm_add_epi32 ma mb))) c;
          c2 = for_loop (c_div len wlen * wlen) len (\<lambda>i c.
                 c[nat i := \<lparr>re = re (a ! nat i) + re (b ! nat i),
                             im = im (a ! nat i) + im (b ! nat i)\<rparr>]) c1
      in (c2, 0))"

definition ext_v_add_int16 ::
  "int16 list \<Rightarrow> int \<Rightarrow> int16 list \<Rightarrow> int \<Rightarrow> int16 list \<Rightarrow> int \<Rightarrow> int16 list \<times> int" where
  "ext_v_add_int16 c len a unused_2 b unused_1 =
     (let wlen = 8;
          c1 = for_loop 0 (c_div len wlen) (\<lambda>i c.
                 let ma = mm_loadu_si128 a (8 * nat i);
                     mb = mm_loadu_si128 b (8 * nat i)
                 in mm_storeu_si128 c (8 * nat i) (mm_add_epi16 ma mb)) c;
          c2 = for_loop (c_div len wlen * wlen) len (\<lambda>i c.
                 c[nat i := ucast ((scast (a ! nat i) :: int32) + scast (b ! nat i))]) c1
      in (c2, 0))"

definition ext_v_add_int32 ::
  "int32 list \<Rightarrow> int \<Rightarrow> int32 list \<Rightarrow> int \<Rightarrow> int32 list \<Rightarrow> int \<Rightarrow> int32 list \<times> int" where
  "ext_v_add_int32 c len a unused_2 b unused_1 =
     (let wlen = 4;
          c1 = for_loop 0 (c_div len wlen) (\<lambda>i c.
                 let ma = mm_loadu_si128 a (4 * nat i);
                     mb = mm_loadu_si128 b (4 * nat i)
                 in mm_storeu_si128 c (4 * nat i) (mm_add_epi32 ma mb)) c;
          c2 = for_loop (c_div len wlen * wlen) len (\<lambda>i c.
                 c[nat i := a ! nat i + b ! nat i]) c1
      in (c2, 0))"

subsection \<open>\<^verbatim>\<open>c = a - b\<close>\<close>

definition ext_v_sub_complex16 ::
  "complex16 list \<Rightarrow> int \<Rightarrow> complex16 list \<Rightarrow> int \<Rightarrow> complex16 list \<Rightarrow> int \<Rightarrow> complex16 list \<times> int" where
  "ext_v_sub_complex16 c len a unused_2 b unused_1 =
     (let wlen = 4;
          c1 = for_loop 0 (c_div len wlen) (\<lambda>i c.
                 let ma = mm_loadu_si128 (flat a) (8 * nat i);
                     mb = mm_loadu_si128 (flat b) (8 * nat i)
                 in unflat (mm_storeu_si128 (flat c) (8 * nat i) (mm_sub_epi16 ma mb))) c;
          c2 = for_loop (c_div len wlen * wlen) len (\<lambda>i c.
                 c[nat i := \<lparr>re = ucast ((scast (re (a ! nat i)) :: int32) - scast (re (b ! nat i))),
                             im = ucast ((scast (im (a ! nat i)) :: int32) - scast (im (b ! nat i)))\<rparr>]) c1
      in (c2, 0))"

definition ext_v_sub_complex32 ::
  "complex32 list \<Rightarrow> int \<Rightarrow> complex32 list \<Rightarrow> int \<Rightarrow> complex32 list \<Rightarrow> int \<Rightarrow> complex32 list \<times> int" where
  "ext_v_sub_complex32 c len a unused_2 b unused_1 =
     (let wlen = 2;
          c1 = for_loop 0 (c_div len wlen) (\<lambda>i c.
                 let ma = mm_loadu_si128 (flat a) (4 * nat i);
                     mb = mm_loadu_si128 (flat b) (4 * nat i)
                 in unflat (mm_storeu_si128 (flat c) (4 * nat i) (mm_sub_epi32 ma mb))) c;
          c2 = for_loop (c_div len wlen * wlen) len (\<lambda>i c.
                 c[nat i := \<lparr>re = re (a ! nat i) - re (b ! nat i),
                             im = im (a ! nat i) - im (b ! nat i)\<rparr>]) c1
      in (c2, 0))"

definition ext_v_sub_int16 ::
  "int16 list \<Rightarrow> int \<Rightarrow> int16 list \<Rightarrow> int \<Rightarrow> int16 list \<Rightarrow> int \<Rightarrow> int16 list \<times> int" where
  "ext_v_sub_int16 c len a unused_2 b unused_1 =
     (let wlen = 8;
          c1 = for_loop 0 (c_div len wlen) (\<lambda>i c.
                 let ma = mm_loadu_si128 a (8 * nat i);
                     mb = mm_loadu_si128 b (8 * nat i)
                 in mm_storeu_si128 c (8 * nat i) (mm_sub_epi16 ma mb)) c;
          c2 = for_loop (c_div len wlen * wlen) len (\<lambda>i c.
                 c[nat i := ucast ((scast (a ! nat i) :: int32) - scast (b ! nat i))]) c1
      in (c2, 0))"

definition ext_v_sub_int32 ::
  "int32 list \<Rightarrow> int \<Rightarrow> int32 list \<Rightarrow> int \<Rightarrow> int32 list \<Rightarrow> int \<Rightarrow> int32 list \<times> int" where
  "ext_v_sub_int32 c len a unused_2 b unused_1 =
     (let wlen = 4;
          c1 = for_loop 0 (c_div len wlen) (\<lambda>i c.
                 let ma = mm_loadu_si128 a (4 * nat i);
                     mb = mm_loadu_si128 b (4 * nat i)
                 in mm_storeu_si128 c (4 * nat i) (mm_sub_epi32 ma mb)) c;
          c2 = for_loop (c_div len wlen * wlen) len (\<lambda>i c.
                 c[nat i := a ! nat i - b ! nat i]) c1
      in (c2, 0))"

subsection \<open>Horizontal reductions\<close>

text \<open>
  \<^verbatim>\<open>num16 re = x[0].re + x[1].re + x[2].re + x[3].re\<close>: the operands are promoted to
  \<^verbatim>\<open>int\<close>, added there, and the sum is converted back to 16 bits.
\<close>

definition ext_v_hadd_complex16 ::
  "complex16 list \<Rightarrow> int \<Rightarrow> complex16 list \<Rightarrow> int \<Rightarrow> complex16 list \<times> int" where
  "ext_v_hadd_complex16 z unused_2 x unused_1 =
     (let re' = (ucast ((scast (re (x ! 0)) :: int32) + scast (re (x ! 1)) + scast (re (x ! 2))
                        + scast (re (x ! 3))) :: num16);
          im' = (ucast ((scast (im (x ! 0)) :: int32) + scast (im (x ! 1)) + scast (im (x ! 2))
                        + scast (im (x ! 3))) :: num16);
          z1 = for_loop 0 4 (\<lambda>i z. z[nat i := \<lparr>re = re', im = im'\<rparr>]) z
      in (z1, 0))"

definition ext_v_hadd_int32 ::
  "int32 list \<Rightarrow> int \<Rightarrow> int32 list \<Rightarrow> int \<Rightarrow> int32 list \<times> int" where
  "ext_v_hadd_int32 z unused_21 x unused_20 =
     (let z0 = z[0 := x ! 0 + x ! 1 + x ! 2 + x ! 3];
          z1 = for_loop 1 4 (\<lambda>i z. z[nat i := z ! 0]) z0
      in (z1, 0))"

definition ext_v_sum_complex16 :: "complex16 list \<Rightarrow> int \<Rightarrow> complex16" where
  "ext_v_sum_complex16 x len =
     for_loop 0 len (\<lambda>i ret.
        let ret1 = ret\<lparr>re := ucast ((scast (re ret) :: int32) + scast (re (x ! nat i)))\<rparr>
        in ret1\<lparr>im := ucast ((scast (im ret1) :: int32) + scast (im (x ! nat i)))\<rparr>)
       \<lparr>re = 0, im = 0\<rparr>"

definition ext_v_sum_complex32 :: "complex32 list \<Rightarrow> int \<Rightarrow> complex32" where
  "ext_v_sum_complex32 x len =
     for_loop 0 len (\<lambda>i ret.
        let ret1 = ret\<lparr>re := re ret + re (x ! nat i)\<rparr>
        in ret1\<lparr>im := im ret1 + im (x ! nat i)\<rparr>)
       \<lparr>re = 0, im = 0\<rparr>"

text \<open>
  The counter of the two scalar sums is an \<^verbatim>\<open>unsigned int\<close>, so \<^verbatim>\<open>i < len\<close> compares
  with \<^verbatim>\<open>len\<close> converted to unsigned.
\<close>

definition ext_v_sum_int16 :: "int16 list \<Rightarrow> int \<Rightarrow> int16" where
  "ext_v_sum_int16 x len =
     for_loop 0 (len mod 2 ^ 32) (\<lambda>i (sum :: num16).
        ucast ((scast sum :: int32) + scast (x ! nat i))) 0"

definition ext_v_sum_int32 :: "int32 list \<Rightarrow> int \<Rightarrow> int32" where
  "ext_v_sum_int32 x len =
     for_loop 0 (len mod 2 ^ 32) (\<lambda>i (sum :: num32). sum + x ! nat i) 0"

text \<open>The sums of four elements. The accumulator of \<^verbatim>\<open>__ext_sumi32\<close> is an \<^verbatim>\<open>int16\<close>.\<close>

definition ext_sumc32 :: "complex32 list \<Rightarrow> int \<Rightarrow> complex32" where
  "ext_sumc32 x unused_20 =
     \<lparr>re = re (x ! 0) + re (x ! 1) + re (x ! 2) + re (x ! 3),
      im = im (x ! 0) + im (x ! 1) + im (x ! 2) + im (x ! 3)\<rparr>"

definition ext_sumc16 :: "complex16 list \<Rightarrow> int \<Rightarrow> complex16" where
  "ext_sumc16 x unused_20 =
     \<lparr>re = ucast ((scast (re (x ! 0)) :: int32) + scast (re (x ! 1)) + scast (re (x ! 2))
                  + scast (re (x ! 3))),
      im = ucast ((scast (im (x ! 0)) :: int32) + scast (im (x ! 1)) + scast (im (x ! 2))
                  + scast (im (x ! 3)))\<rparr>"

definition ext_sumi32 :: "int32 list \<Rightarrow> int \<Rightarrow> int32" where
  "ext_sumi32 x unused_21 =
     scast (for_loop 0 4 (\<lambda>i (ret :: int16). ucast ((scast ret :: int32) + x ! nat i)) 0)"

definition ext_sumi16 :: "int16 list \<Rightarrow> int \<Rightarrow> int16" where
  "ext_sumi16 x unused_21 =
     for_loop 0 4 (\<lambda>i (ret :: int16). ucast ((scast ret :: int32) + scast (x ! nat i))) 0"

subsection \<open>Shifts\<close>

text \<open>
  The scalar shifts of C. \<^verbatim>\<open>>>\<close> on an \<^verbatim>\<open>int\<close> shifts the sign bit in, on an unsigned
  operand it shifts zeros in. C defines them for \<open>0 \<le> shift < 32\<close> only; the theorems
  below keep the shift amount in that range.
\<close>

definition c_shr_int :: "int32 \<Rightarrow> int \<Rightarrow> int32" where
  "c_shr_int v shift = signed_drop_bit (nat shift) v"

definition c_shr_uint :: "unum32 \<Rightarrow> int \<Rightarrow> unum32" where
  "c_shr_uint v shift = drop_bit (nat shift) v"

definition c_shl_int :: "int32 \<Rightarrow> int \<Rightarrow> int32" where
  "c_shl_int v shift = push_bit (nat shift) v"

definition ext_v_shift_right_complex32 ::
  "complex32 list \<Rightarrow> int \<Rightarrow> complex32 list \<Rightarrow> int \<Rightarrow> int \<Rightarrow> complex32 list \<times> int" where
  "ext_v_shift_right_complex32 z unused_3 x len shift =
     (let wlen = 2;
          z1 = for_loop 0 (c_div len wlen) (\<lambda>i z.
                 unflat (mm_storeu_si128 (flat z) (4 * nat i)
                           (mm_srai_epi32 (mm_loadu_si128 (flat x) (4 * nat i)) shift))) z;
          Ps = flat x;
          z2 = for_loop (c_div len wlen * wlen * 2) (len * 2) (\<lambda>i z.
                 unflat ((flat z)[nat i := c_shr_uint (Ps ! nat i) shift])) z1
      in (z2, 0))"

definition ext_v_shift_left_complex32 ::
  "complex32 list \<Rightarrow> int \<Rightarrow> complex32 list \<Rightarrow> int \<Rightarrow> int \<Rightarrow> complex32 list \<times> int" where
  "ext_v_shift_left_complex32 z unused_3 x len shift =
     (let wlen = 2;
          z1 = for_loop 0 (c_div len wlen) (\<lambda>i z.
                 unflat (mm_storeu_si128 (flat z) (4 * nat i)
                           (mm_slli_epi32 (mm_loadu_si128 (flat x) (4 * nat i)) shift))) z;
          Ps = flat x;
          z2 = for_loop (c_div len wlen * wlen * 2) (len * 2) (\<lambda>i z.
                 unflat ((flat z)[nat i := c_shl_int (Ps ! nat i) shift])) z1
      in (z2, 0))"

text \<open>
  In the 16-bit kernels the remainder loop reads \<^verbatim>\<open>unum16\<close> components: each is
  promoted to \<^verbatim>\<open>int\<close> by zero extension, shifted there and converted back.
\<close>

definition ext_v_shift_right_complex16 ::
  "complex16 list \<Rightarrow> int \<Rightarrow> complex16 list \<Rightarrow> int \<Rightarrow> int \<Rightarrow> complex16 list \<times> int" where
  "ext_v_shift_right_complex16 z unused_3 x len shift =
     (let wlen = 4;
          z1 = for_loop 0 (c_div len wlen) (\<lambda>i z.
                 unflat (mm_storeu_si128 (flat z) (8 * nat i)
                           (mm_srai_epi16 (mm_loadu_si128 (flat x) (8 * nat i)) shift))) z;
          Ps = flat x;
          z2 = for_loop (c_div len wlen * wlen * 2) (len * 2) (\<lambda>i z.
                 unflat ((flat z)[nat i := ucast (c_shr_int (ucast (Ps ! nat i)) shift)])) z1
      in (z2, 0))"

definition ext_v_shift_left_complex16 ::
  "complex16 list \<Rightarrow> int \<Rightarrow> complex16 list \<Rightarrow> int \<Rightarrow> int \<Rightarrow> complex16 list \<times> int" where
  "ext_v_shift_left_complex16 z unused_3 x len shift =
     (let wlen = 4;
          z1 = for_loop 0 (c_div len wlen) (\<lambda>i z.
                 unflat (mm_storeu_si128 (flat z) (8 * nat i)
                           (mm_slli_epi16 (mm_loadu_si128 (flat x) (8 * nat i)) shift))) z;
          Ps = flat x;
          z2 = for_loop (c_div len wlen * wlen * 2) (len * 2) (\<lambda>i z.
                 unflat ((flat z)[nat i := ucast (c_shl_int (ucast (Ps ! nat i)) shift)])) z1
      in (z2, 0))"

definition ext_v_shift_right_int32 ::
  "int32 list \<Rightarrow> int \<Rightarrow> int32 list \<Rightarrow> int \<Rightarrow> int \<Rightarrow> int32 list \<times> int" where
  "ext_v_shift_right_int32 z unused_3 x len shift =
     (let wlen = 4;
          z1 = for_loop 0 (c_div len wlen) (\<lambda>i z.
                 mm_storeu_si128 z (4 * nat i)
                   (mm_srai_epi32 (mm_loadu_si128 x (4 * nat i)) shift)) z;
          z2 = for_loop (c_div len wlen * wlen) len (\<lambda>i z.
                 z[nat i := c_shr_int (x ! nat i) shift]) z1
      in (z2, 0))"

definition ext_v_shift_left_int32 ::
  "int32 list \<Rightarrow> int \<Rightarrow> int32 list \<Rightarrow> int \<Rightarrow> int \<Rightarrow> int32 list \<times> int" where
  "ext_v_shift_left_int32 z unused_3 x len shift =
     (let wlen = 4;
          z1 = for_loop 0 (c_div len wlen) (\<lambda>i z.
                 mm_storeu_si128 z (4 * nat i)
                   (mm_slli_epi32 (mm_loadu_si128 x (4 * nat i)) shift)) z;
          z2 = for_loop (c_div len wlen * wlen) len (\<lambda>i z.
                 z[nat i := c_shl_int (x ! nat i) shift]) z1
      in (z2, 0))"

definition ext_v_shift_right_int16 ::
  "int16 list \<Rightarrow> int \<Rightarrow> int16 list \<Rightarrow> int \<Rightarrow> int \<Rightarrow> int16 list \<times> int" where
  "ext_v_shift_right_int16 z unused_3 x len shift =
     (let wlen = 8;
          z1 = for_loop 0 (c_div len wlen) (\<lambda>i z.
                 mm_storeu_si128 z (8 * nat i)
                   (mm_srai_epi16 (mm_loadu_si128 x (8 * nat i)) shift)) z;
          z2 = for_loop (c_div len wlen * wlen) len (\<lambda>i z.
                 z[nat i := ucast (c_shr_int (scast (x ! nat i)) shift)]) z1
      in (z2, 0))"

definition ext_v_shift_left_int16 ::
  "int16 list \<Rightarrow> int \<Rightarrow> int16 list \<Rightarrow> int \<Rightarrow> int \<Rightarrow> int16 list \<times> int" where
  "ext_v_shift_left_int16 z unused_3 x len shift =
     (let wlen = 8;
          z1 = for_loop 0 (c_div len wlen) (\<lambda>i z.
                 mm_storeu_si128 z (8 * nat i)
                   (mm_slli_epi16 (mm_loadu_si128 x (8 * nat i)) shift)) z;
          z2 = for_loop (c_div len wlen * wlen) len (\<lambda>i z.
                 z[nat i := ucast (c_shl_int (scast (x ! nat i)) shift)]) z1
      in (z2, 0))"

subsection \<open>Complex multiplication\<close>

text \<open>
  The vector loop negates the imaginary lanes of one operand with
  \<^verbatim>\<open>(v ^ 0xFFFF0000) + 0x00010000\<close> in every 32-bit lane, swaps the two halves of every
  32-bit lane with the two shuffles, and lets \<^verbatim>\<open>_mm_madd_epi16\<close> form the two sums of
  products. The remainder loop computes the products in \<^verbatim>\<open>int\<close>.
\<close>

definition ext_v_mul_complex16 ::
  "complex16 list \<Rightarrow> int \<Rightarrow> complex16 list \<Rightarrow> int \<Rightarrow> complex16 list \<Rightarrow> int \<Rightarrow> int
     \<Rightarrow> complex16 list \<times> int" where
  "ext_v_mul_complex16 out lenout x len1 y len2 shift =
     (let wlen = 4;
          xmm6 = mm_set1_epi32 0x0000FFFF;
          xmm5 = mm_set1_epi32 0xFFFF0000;
          xmm4 = mm_set1_epi32 0x00010000;
          out1 = for_loop 0 (c_div len1 wlen) (\<lambda>i out.
                   let mx = mm_loadu_si128 (flat x) (8 * nat i);
                       my = mm_loadu_si128 (flat y) (8 * nat i);
                       ms1 = mm_xor_si128 mx xmm5;
                       ms1a = mm_add_epi32 ms1 xmm4;
                       ms2 = mm_shufflehi_epi16 mx (MM_SHUFFLE 2 3 0 1);
                       ms2a = mm_shufflelo_epi16 ms2 (MM_SHUFFLE 2 3 0 1);
                       mre = mm_srai_epi32 (mm_madd_epi16 ms1a my) shift;
                       mim = mm_srai_epi32 (mm_madd_epi16 ms2a my) shift;
                       mre_a = mm_and_si128 mre xmm6;
                       mim_a = mm_and_si128 mim xmm6;
                       mim_b = mm_slli_epi32 mim_a 0x10
                   in unflat (mm_storeu_si128 (flat out) (8 * nat i) (mm_or_si128 mre_a mim_b))) out;
          out2 = for_loop (c_div len1 wlen * wlen) len1 (\<lambda>i out.
                   let xr = (scast (re (x ! nat i)) :: int32); xi = (scast (im (x ! nat i)) :: int32);
                       yr = (scast (re (y ! nat i)) :: int32); yi = (scast (im (y ! nat i)) :: int32)
                   in out[nat i := \<lparr>re = ucast (c_shr_int (xr * yr - xi * yi) shift),
                                     im = ucast (c_shr_int (xr * yi + xi * yr) shift)\<rparr>]) out1
      in (out2, 0))"

definition ext_v_conj_mul_complex16_int32 ::
  "int32 list \<Rightarrow> int \<Rightarrow> int32 list \<Rightarrow> int \<Rightarrow> complex16 list \<Rightarrow> int \<Rightarrow> complex16 list \<Rightarrow> int
     \<Rightarrow> (int32 list \<times> int32 list) \<times> int" where
  "ext_v_conj_mul_complex16_int32 re_out lenout1 im_out lenout2 x len1 y len2 =
     (let wlen = 4;
          xmm5 = mm_set1_epi32 0xFFFF0000;
          xmm4 = mm_set1_epi32 0x00010000;
          out1 = for_loop 0 (c_div len1 wlen) (\<lambda>i (re_out, im_out).
                   let mx = mm_loadu_si128 (flat x) (8 * nat i);
                       my = mm_loadu_si128 (flat y) (8 * nat i);
                       ms2 = mm_xor_si128 my xmm5;
                       ms2a = mm_add_epi32 ms2 xmm4;
                       ms2b = mm_shufflehi_epi16 ms2a (MM_SHUFFLE 2 3 0 1);
                       ms2c = mm_shufflelo_epi16 ms2b (MM_SHUFFLE 2 3 0 1)
                   in (mm_storeu_si128 re_out (4 * nat i) (mm_madd_epi16 my mx),
                       mm_storeu_si128 im_out (4 * nat i) (mm_madd_epi16 ms2c mx))) (re_out, im_out);
          out2 = for_loop (c_div len1 wlen * wlen) len1 (\<lambda>i (re_out, im_out).
                   let xr = (scast (re (x ! nat i)) :: int32); xi = (scast (im (x ! nat i)) :: int32);
                       yr = (scast (re (y ! nat i)) :: int32); yi = (scast (im (y ! nat i)) :: int32)
                   in (re_out[nat i := xr * yr + xi * yi],
                       im_out[nat i := xi * yr - xr * yi])) out1
      in (out2, 0))"

definition ext_v_conj_mul_complex16 ::
  "complex16 list \<Rightarrow> int \<Rightarrow> complex16 list \<Rightarrow> int \<Rightarrow> complex16 list \<Rightarrow> int \<Rightarrow> int
     \<Rightarrow> complex16 list \<times> int" where
  "ext_v_conj_mul_complex16 out lenout x len1 y len2 shift =
     (let wlen = 4;
          xmm6 = mm_set1_epi32 0x0000FFFF;
          xmm5 = mm_set1_epi32 0xFFFF0000;
          xmm4 = mm_set1_epi32 0x00010000;
          out1 = for_loop 0 (c_div len1 wlen) (\<lambda>i out.
                   let mx = mm_loadu_si128 (flat x) (8 * nat i);
                       my = mm_loadu_si128 (flat y) (8 * nat i);
                       ms2 = mm_xor_si128 my xmm5;
                       ms2a = mm_add_epi32 ms2 xmm4;
                       ms2b = mm_shufflehi_epi16 ms2a (MM_SHUFFLE 2 3 0 1);
                       ms2c = mm_shufflelo_epi16 ms2b (MM_SHUFFLE 2 3 0 1);
                       mre = mm_srai_epi32 (mm_madd_epi16 my mx) shift;
                       mim = mm_srai_epi32 (mm_madd_epi16 ms2c mx) shift;
                       mre_a = mm_and_si128 mre xmm6;
                       mim_a = mm_and_si128 mim xmm6;
                       mim_b = mm_slli_epi32 mim_a 0x10
                   in unflat (mm_storeu_si128 (flat out) (8 * nat i) (mm_or_si128 mre_a mim_b))) out;
          out2 = for_loop (c_div len1 wlen * wlen) len1 (\<lambda>i out.
                   let xr = (scast (re (x ! nat i)) :: int32); xi = (scast (im (x ! nat i)) :: int32);
                       yr = (scast (re (y ! nat i)) :: int32); yi = (scast (im (y ! nat i)) :: int32)
                   in out[nat i := \<lparr>re = ucast (c_shr_int (xr * yr + xi * yi) shift),
                                     im = ucast (c_shr_int (xi * yr - xr * yi) shift)\<rparr>]) out1
      in (out2, 0))"

subsection \<open>Packing\<close>

text \<open>
  Modelled from the spec: \<^verbatim>\<open>saturated_pack\<close> is a function of the Sora SDK's
  \<^verbatim>\<open>vector128.h\<close>, which is not among the sources. Following the spec's "saturating
  narrowing cast from 16-bit to 8-bit", it narrows the eight 16-bit lanes of its first
  argument and then the eight of its second to sixteen 8-bit lanes, each clamped to the
  range of a signed byte.
\<close>

definition saturate_int8 :: "int16 \<Rightarrow> int8" where
  "saturate_int8 v = (if 127 < sint v then 127 else if sint v < - 128 then - 128 else ucast v)"

definition saturated_pack :: "m128i \<Rightarrow> m128i \<Rightarrow> m128i" where
  "saturated_pack a b = of_lanes (map saturate_int8 (epi16 a @ epi16 b))"

text \<open>
  \<^verbatim>\<open>wlen\<close> is \<^verbatim>\<open>sizeof(vcs) / sizeof(complex16)\<close>, four. The counter \<^verbatim>\<open>i\<close> of the vector
  loop is read again after the loop, where it holds the number of iterations done. The
  remainder loop assigns an \<^verbatim>\<open>int16\<close> to an \<^verbatim>\<open>int8\<close> field.
\<close>

definition ext_v_pack_complex16_complex8 ::
  "complex8 list \<Rightarrow> int \<Rightarrow> complex16 list \<Rightarrow> int \<Rightarrow> complex8 list" where
  "ext_v_pack_complex16_complex8 output lenout input lenin =
     (let wlen = 4;
          i_end = max 0 (c_div (c_div lenin wlen) 2);
          o1 = for_loop 0 i_end (\<lambda>i output.
                 unflat (store_w (flat output) (16 * nat i)
                           (saturated_pack (load_w (flat input) (16 * nat i))
                                           (load_w (flat input) (16 * nat i + 8))))) output;
          o2 = for_loop (i_end * 2 * wlen) lenin (\<lambda>j output.
                 output[nat j := \<lparr>re = ucast (re (input ! nat j)),
                                   im = ucast (im (input ! nat j))\<rparr>]) o1
      in o2)"

section \<open>Bitwise vector logic\<close>

text \<open>
  \<^verbatim>\<open>while (cnt + step <= bound) { body; cnt += step; }\<close> with the counter returned: the
  16-byte loop of the generic kernels has \<open>step = 16\<close>, their byte loop
  (\<^verbatim>\<open>while (cnt < bytelen1)\<close>) has \<open>step = 1\<close>.
\<close>

function while_cnt :: "int \<Rightarrow> int \<Rightarrow> int \<Rightarrow> (int \<Rightarrow> 's \<Rightarrow> 's) \<Rightarrow> 's \<Rightarrow> int \<times> 's" where
  "while_cnt step cnt bound body s =
     (if 0 < step \<and> cnt + step \<le> bound
      then while_cnt step (cnt + step) bound body (body cnt s)
      else (cnt, s))"
  by pat_completeness auto
termination
  by (relation "measure (\<lambda>(step, cnt, bound, body, s). nat (bound - cnt))") auto

text \<open>\<^verbatim>\<open>inlen1 / 8 + ((inlen1 % 8) > 0)\<close>: the bytes that hold \<^verbatim>\<open>inlen1\<close> bits.\<close>

definition bytelen :: "int \<Rightarrow> int" where
  "bytelen inlen1 = c_div inlen1 8 + (if c_mod inlen1 8 > 0 then 1 else 0)"

text \<open>
  The operands of \<^verbatim>\<open>&\<close>, \<^verbatim>\<open>|\<close>, \<^verbatim>\<open>^\<close> and \<^verbatim>\<open>~\<close> on \<^verbatim>\<open>unsigned char\<close> are promoted to
  \<^verbatim>\<open>int\<close> and the result converted back. The assignment \<^verbatim>\<open>outlen = inlen1\<close> that ends
  the generic kernels writes the kernel's own copy of the parameter, which no caller
  sees: the kernels return the output buffer only.
\<close>

definition ext_v_and ::
  "unum8 list \<Rightarrow> int \<Rightarrow> unum8 list \<Rightarrow> int \<Rightarrow> unum8 list \<Rightarrow> int \<Rightarrow> unum8 list" where
  "ext_v_and output outlen input1 inlen1 input2 inlen2 =
     (let bytelen1 = bytelen inlen1;
          (cnt, o1) = while_cnt 16 0 bytelen1 (\<lambda>cnt output.
                 let mi1 = mm_loadu_si128 input1 (nat cnt);
                     mi2 = mm_loadu_si128 input2 (nat cnt)
                 in mm_storeu_si128 output (nat cnt) (mm_and_si128 mi1 mi2)) output;
          (cnt_end, o2) = while_cnt 1 cnt bytelen1 (\<lambda>cnt output.
                 output[nat cnt := ucast ((ucast (input1 ! nat cnt) :: int32) AND ucast (input2 ! nat cnt))]) o1;
          outlen_local = inlen1
      in o2)"

definition ext_v_andnot ::
  "unum8 list \<Rightarrow> int \<Rightarrow> unum8 list \<Rightarrow> int \<Rightarrow> unum8 list \<Rightarrow> int \<Rightarrow> unum8 list" where
  "ext_v_andnot output outlen input1 inlen1 input2 inlen2 =
     (let bytelen1 = bytelen inlen1;
          (cnt, o1) = while_cnt 16 0 bytelen1 (\<lambda>cnt output.
                 let mi1 = mm_loadu_si128 input1 (nat cnt);
                     mi2 = mm_loadu_si128 input2 (nat cnt)
                 in mm_storeu_si128 output (nat cnt) (mm_andnot_si128 mi1 mi2)) output;
          (cnt_end, o2) = while_cnt 1 cnt bytelen1 (\<lambda>cnt output.
                 output[nat cnt := ucast ((NOT (ucast (input1 ! nat cnt) :: int32)) AND ucast (input2 ! nat cnt))]) o1;
          outlen_local = inlen1
      in o2)"

definition ext_v_xor ::
  "unum8 list \<Rightarrow> int \<Rightarrow> unum8 list \<Rightarrow> int \<Rightarrow> unum8 list \<Rightarrow> int \<Rightarrow> unum8 list" where
  "ext_v_xor output outlen input1 inlen1 input2 inlen2 =
     (let bytelen1 = bytelen inlen1;
          (cnt, o1) = while_cnt 16 0 bytelen1 (\<lambda>cnt output.
                 let mi1 = mm_loadu_si128 input1 (nat cnt);
                     mi2 = mm_loadu_si128 input2 (nat cnt)
                 in mm_storeu_si128 output (nat cnt) (mm_xor_si128 mi1 mi2)) output;
          (cnt_end, o2) = while_cnt 1 cnt bytelen1 (\<lambda>cnt output.
                 output[nat cnt := ucast ((ucast (input1 ! nat cnt) :: int32) XOR ucast (input2 ! nat cnt))]) o1;
          outlen_local = inlen1
      in o2)"

text \<open>The versions for arrays of one byte.\<close>

definition ext_v_and8 ::
  "unum8 list \<Rightarrow> int \<Rightarrow> unum8 list \<Rightarrow> int \<Rightarrow> unum8 list \<Rightarrow> int \<Rightarrow> unum8 list" where
  "ext_v_and8 output outlen input1 inlen1 input2 inlen2 =
     output[0 := ucast ((ucast (input1 ! 0) :: int32) AND ucast (input2 ! 0))]"

definition ext_v_xor8 ::
  "unum8 list \<Rightarrow> int \<Rightarrow> unum8 list \<Rightarrow> int \<Rightarrow> unum8 list \<Rightarrow> int \<Rightarrow> unum8 list" where
  "ext_v_xor8 output outlen input1 inlen1 input2 inlen2 =
     output[0 := ucast ((ucast (input1 ! 0) :: int32) XOR ucast (input2 ! 0))]"

definition ext_v_andnot8 ::
  "unum8 list \<Rightarrow> int \<Rightarrow> unum8 list \<Rightarrow> int \<Rightarrow> unum8 list \<Rightarrow> int \<Rightarrow> unum8 list" where
  "ext_v_andnot8 output outlen input1 inlen1 input2 inlen2 =
     output[0 := ucast ((NOT (ucast (input1 ! 0) :: int32)) AND ucast (input2 ! 0))]"

definition ext_v_or8 ::
  "unum8 list \<Rightarrow> int \<Rightarrow> unum8 list \<Rightarrow> int \<Rightarrow> unum8 list \<Rightarrow> int \<Rightarrow> unum8 list" where
  "ext_v_or8 output outlen input1 inlen1 input2 inlen2 =
     output[0 := ucast ((ucast (input1 ! 0) :: int32) OR ucast (input2 ! 0))]"

subsection \<open>The OR kernel and its fixed-width paths\<close>

definition ext_v_or_48 :: "unum8 list \<Rightarrow> unum8 list \<Rightarrow> unum8 list \<Rightarrow> unum8 list" where
  "ext_v_or_48 output input1 input2 =
     (let i1 = (load_w input1 0 :: unum32);
          i2 = (load_w input2 0 :: unum32);
          o1 = store_w output 0 (i1 OR i2);
          j1 = (load_w input1 4 :: unum16);
          j2 = (load_w input2 4 :: unum16)
      in store_w o1 4 (ucast ((ucast j1 :: int32) OR ucast j2) :: unum16))"

definition ext_v_or_96 :: "unum8 list \<Rightarrow> unum8 list \<Rightarrow> unum8 list \<Rightarrow> unum8 list" where
  "ext_v_or_96 output input1 input2 =
     (let i1 = (load_w input1 0 :: unum64);
          i2 = (load_w input2 0 :: unum64);
          o1 = store_w output 0 (i1 OR i2);
          j1 = (load_w input1 8 :: unum32);
          j2 = (load_w input2 8 :: unum32)
      in store_w o1 8 (j1 OR j2))"

definition ext_v_or_192 :: "unum8 list \<Rightarrow> unum8 list \<Rightarrow> unum8 list \<Rightarrow> unum8 list" where
  "ext_v_or_192 output input1 input2 =
     (let i1 = (load_w input1 0 :: unum64);
          i2 = (load_w input2 0 :: unum64);
          o1 = store_w output 0 (i1 OR i2);
          i1a = (load_w input1 8 :: unum64);
          i2a = (load_w input2 8 :: unum64);
          o2 = store_w o1 8 (i1a OR i2a);
          i1b = (load_w input1 16 :: unum64);
          i2b = (load_w input2 16 :: unum64)
      in store_w o2 16 (i1b OR i2b))"

text \<open>
  \<^verbatim>\<open>__ext_v_or_288\<close> passes \<^verbatim>\<open>output + 24\<close>, \<^verbatim>\<open>input1 + 24\<close> and \<^verbatim>\<open>input2 + 24\<close> to the
  96-bit path: the buffers from byte 24 on.
\<close>

definition ext_v_or_288 :: "unum8 list \<Rightarrow> unum8 list \<Rightarrow> unum8 list \<Rightarrow> unum8 list" where
  "ext_v_or_288 output input1 input2 =
     (let o1 = ext_v_or_192 output input1 input2
      in take 24 o1 @ ext_v_or_96 (drop 24 o1) (drop 24 input1) (drop 24 input2))"

text \<open>The generic byte loop, the \<^verbatim>\<open>default\<close> branch of \<^verbatim>\<open>__ext_v_or\<close>, on its own.\<close>

definition or_byte_loop :: "unum8 list \<Rightarrow> unum8 list \<Rightarrow> int \<Rightarrow> unum8 list \<Rightarrow> unum8 list" where
  "or_byte_loop output input1 inlen1 input2 =
     for_loop 0 (c_div (inlen1 + 7) 8) (\<lambda>cnt output.
       output[nat cnt := ucast ((ucast (input1 ! nat cnt) :: int32) OR ucast (input2 ! nat cnt))])
       output"

definition ext_v_or ::
  "unum8 list \<Rightarrow> int \<Rightarrow> unum8 list \<Rightarrow> int \<Rightarrow> unum8 list \<Rightarrow> int \<Rightarrow> unum8 list" where
  "ext_v_or output outlen input1 inlen1 input2 inlen2 =
     (if inlen1 = 48 then ext_v_or_48 output input1 input2
      else if inlen1 = 96 then ext_v_or_96 output input1 input2
      else if inlen1 = 192 then ext_v_or_192 output input1 input2
      else if inlen1 = 288 then ext_v_or_288 output input1 input2
      else for_loop 0 (c_div (inlen1 + 7) 8) (\<lambda>cnt output.
             output[nat cnt := ucast ((ucast (input1 ! nat cnt) :: int32) OR ucast (input2 ! nat cnt))])
             output)"

section \<open>FFT and IFFT dispatch\<close>

text \<open>
  \<^verbatim>\<open>FFTSafe<N>\<close> and \<^verbatim>\<open>IFFTSafe<N>\<close> are templates of \<^verbatim>\<open>sora_ext_lib_fft.hpp\<close>, which is
  not among the sources: the dispatchers take them as a parameter, a function of the
  size, the input buffer and the output buffer that returns the output buffer of the
  transform. What \<^verbatim>\<open>printf\<close> writes is appended to the console, each entry the format
  string (without its newline) and its argument.
\<close>

type_synonym console = "(string \<times> int) list"

type_synonym transform = "nat \<Rightarrow> complex16 list \<Rightarrow> complex16 list \<Rightarrow> complex16 list"

definition ext_sora_fft ::
  "transform \<Rightarrow> console \<Rightarrow> complex16 list \<Rightarrow> int \<Rightarrow> complex16 list \<Rightarrow> int
     \<Rightarrow> complex16 list \<times> console" where
  "ext_sora_fft FFTSafe console output nFFTSize input unused1 =
     (if nFFTSize = 16 then (FFTSafe 16 input output, console)
      else if nFFTSize = 32 then (FFTSafe 32 input output, console)
      else if nFFTSize = 64 then (FFTSafe 64 input output, console)
      else if nFFTSize = 128 then (FFTSafe 128 input output, console)
      else if nFFTSize = 256 then (FFTSafe 256 input output, console)
      else if nFFTSize = 512 then (FFTSafe 512 input output, console)
      else if nFFTSize = 1024 then (FFTSafe 1024 input output, console)
      else if nFFTSize = 2048 then (FFTSafe 2048 input output, console)
      else if nFFTSize = 12 then (FFTSafe 12 input output, console)
      else if nFFTSize = 24 then (FFTSafe 24 input output, console)
      else if nFFTSize = 36 then (FFTSafe 36 input output, console)
      else if nFFTSize = 48 then (FFTSafe 48 input output, console)
      else if nFFTSize = 60 then (FFTSafe 60 input output, console)
      else if nFFTSize = 72 then (FFTSafe 72 input output, console)
      else if nFFTSize = 96 then (FFTSafe 96 input output, console)
      else if nFFTSize = 108 then (FFTSafe 108 input output, console)
      else if nFFTSize = 120 then (FFTSafe 120 input output, console)
      else if nFFTSize = 144 then (FFTSafe 144 input output, console)
      else if nFFTSize = 180 then (FFTSafe 180 input output, console)
      else if nFFTSize = 192 then (FFTSafe 192 input output, console)
      else if nFFTSize = 216 then (FFTSafe 216 input output, console)
      else if nFFTSize = 240 then (FFTSafe 240 input output, console)
      else if nFFTSize = 288 then (FFTSafe 288 input output, console)
      else if nFFTSize = 300 then (FFTSafe 300 input output, console)
      else if nFFTSize = 324 then (FFTSafe 324 input output, console)
      else if nFFTSize = 360 then (FFTSafe 360 input output, console)
      else if nFFTSize = 384 then (FFTSafe 384 input output, console)
      else if nFFTSize = 432 then (FFTSafe 432 input output, console)
      else if nFFTSize = 480 then (FFTSafe 480 input output, console)
      else if nFFTSize = 540 then (FFTSafe 540 input output, console)
      else if nFFTSize = 576 then (FFTSafe 576 input output, console)
      else if nFFTSize = 600 then (FFTSafe 600 input output, console)
      else if nFFTSize = 648 then (FFTSafe 648 input output, console)
      else if nFFTSize = 720 then (FFTSafe 720 input output, console)
      else if nFFTSize = 768 then (FFTSafe 768 input output, console)
      else if nFFTSize = 864 then (FFTSafe 864 input output, console)
      else if nFFTSize = 900 then (FFTSafe 900 input output, console)
      else if nFFTSize = 960 then (FFTSafe 960 input output, console)
      else if nFFTSize = 972 then (FFTSafe 972 input output, console)
      else if nFFTSize = 1080 then (FFTSafe 1080 input output, console)
      else if nFFTSize = 1152 then (FFTSafe 1152 input output, console)
      else if nFFTSize = 1200 then (FFTSafe 1200 input output, console)
      else (output, console @ [(''__ext_sora_fft error: fft size %d not supported!'', nFFTSize)]))"

definition ext_sora_ifft ::
  "transform \<Rightarrow> console \<Rightarrow> complex16 list \<Rightarrow> int \<Rightarrow> complex16 list \<Rightarrow> int
     \<Rightarrow> complex16 list \<times> console" where
  "ext_sora_ifft IFFTSafe console output nFFTSize input unused1 =
     (if nFFTSize = 16 then (IFFTSafe 16 input output, console)
      else if nFFTSize = 32 then (IFFTSafe 32 input output, console)
      else if nFFTSize = 64 then (IFFTSafe 64 input output, console)
      else if nFFTSize = 128 then (IFFTSafe 128 input output, console)
      else if nFFTSize = 256 then (IFFTSafe 256 input output, console)
      else if nFFTSize = 512 then (IFFTSafe 512 input output, console)
      else if nFFTSize = 1024 then (IFFTSafe 1024 input output, console)
      else if nFFTSize = 2048 then (IFFTSafe 2048 input output, console)
      else if nFFTSize = 12 then (IFFTSafe 12 input output, console)
      else if nFFTSize = 24 then (IFFTSafe 24 input output, console)
      else if nFFTSize = 36 then (IFFTSafe 36 input output, console)
      else if nFFTSize = 48 then (IFFTSafe 48 input output, console)
      else if nFFTSize = 60 then (IFFTSafe 60 input output, console)
      else if nFFTSize = 72 then (IFFTSafe 72 input output, console)
      else if nFFTSize = 96 then (IFFTSafe 96 input output, console)
      else if nFFTSize = 108 then (IFFTSafe 108 input output, console)
      else if nFFTSize = 120 then (IFFTSafe 120 input output, console)
      else if nFFTSize = 144 then (IFFTSafe 144 input output, console)
      else if nFFTSize = 180 then (IFFTSafe 180 input output, console)
      else if nFFTSize = 192 then (IFFTSafe 192 input output, console)
      else if nFFTSize = 216 then (IFFTSafe 216 input output, console)
      else if nFFTSize = 240 then (IFFTSafe 240 input output, console)
      else if nFFTSize = 288 then (IFFTSafe 288 input output, console)
      else if nFFTSize = 300 then (IFFTSafe 300 input output, console)
      else if nFFTSize = 324 then (IFFTSafe 324 input output, console)
      else if nFFTSize = 360 then (IFFTSafe 360 input output, console)
      else if nFFTSize = 384 then (IFFTSafe 384 input output, console)
      else if nFFTSize = 432 then (IFFTSafe 432 input output, console)
      else if nFFTSize = 480 then (IFFTSafe 480 input output, console)
      else if nFFTSize = 540 then (IFFTSafe 540 input output, console)
      else if nFFTSize = 576 then (IFFTSafe 576 input output, console)
      else if nFFTSize = 600 then (IFFTSafe 600 input output, console)
      else if nFFTSize = 648 then (IFFTSafe 648 input output, console)
      else if nFFTSize = 720 then (IFFTSafe 720 input output, console)
      else if nFFTSize = 768 then (IFFTSafe 768 input output, console)
      else if nFFTSize = 864 then (IFFTSafe 864 input output, console)
      else if nFFTSize = 900 then (IFFTSafe 900 input output, console)
      else if nFFTSize = 960 then (IFFTSafe 960 input output, console)
      else if nFFTSize = 972 then (IFFTSafe 972 input output, console)
      else if nFFTSize = 1080 then (IFFTSafe 1080 input output, console)
      else if nFFTSize = 1152 then (IFFTSafe 1152 input output, console)
      else if nFFTSize = 1200 then (IFFTSafe 1200 input output, console)
      else (output, console @ [(''__ext_sora_ifft error: fft size %d not supported!'', nFFTSize)]))"

text \<open>The dynamic entry points take the size as an \<^verbatim>\<open>int16\<close>, promoted at the call.\<close>

definition ext_sora_fft_dynamic ::
  "transform \<Rightarrow> console \<Rightarrow> complex16 list \<Rightarrow> int \<Rightarrow> int16 \<Rightarrow> complex16 list \<Rightarrow> int
     \<Rightarrow> complex16 list \<times> console" where
  "ext_sora_fft_dynamic FFTSafe console output unused2 nFFTSize input unused1 =
     ext_sora_fft FFTSafe console output (sint nFFTSize) input unused1"

definition ext_sora_ifft_dynamic ::
  "transform \<Rightarrow> console \<Rightarrow> complex16 list \<Rightarrow> int \<Rightarrow> int16 \<Rightarrow> complex16 list \<Rightarrow> int
     \<Rightarrow> complex16 list \<times> console" where
  "ext_sora_ifft_dynamic IFFTSafe console output unused2 nFFTSize input unused1 =
     ext_sora_ifft IFFTSafe console output (sint nFFTSize) input unused1"

text \<open>
  The catalog of transform sizes in the spec's words: the powers of two from 16 to 2048
  and the listed LTE sizes.
\<close>

definition spec_catalog :: "int list" where
  "spec_catalog =
     map (\<lambda>k. 2 ^ k) [4..<12] @
     [12, 24, 36, 48, 60, 72, 96, 108, 120, 144, 180, 192, 216, 240, 288, 300, 324, 360, 384,
      432, 480, 540, 576, 600, 648, 720, 768, 864, 900, 960, 972, 1080, 1152, 1200]"

section \<open>Random bits\<close>

text \<open>
  \<^verbatim>\<open>srand\<close>, \<^verbatim>\<open>rand\<close> and \<^verbatim>\<open>time\<close> belong to the C library. The generator is a state \<open>'g\<close>:
  \<open>srand\<close> makes it from a seed and \<open>rand\<close> steps it, returning a number; \<open>now\<close> is what
  \<^verbatim>\<open>time(NULL)\<close> returns at the call. The kernel returns the array, the generator it
  leaves behind and its \<^verbatim>\<open>int\<close>.
\<close>

definition ext_populate_rand_array ::
  "(int \<Rightarrow> 'g) \<Rightarrow> ('g \<Rightarrow> int \<times> 'g) \<Rightarrow> int \<Rightarrow> unum8 list \<Rightarrow> int \<Rightarrow> (unum8 list \<times> 'g) \<times> int" where
  "ext_populate_rand_array srand rand now arr siz =
     (let g0 = srand now;
          r = for_loop 0 (c_div siz 8) (\<lambda>i (arr, g).
                let (v, g') = rand g in (arr[nat i := word_of_int v], g')) (arr, g0)
      in (r, 0))"

text \<open>The first \<open>n\<close> numbers a generator returns.\<close>

fun rand_draws :: "('g \<Rightarrow> int \<times> 'g) \<Rightarrow> 'g \<Rightarrow> nat \<Rightarrow> int list" where
  "rand_draws rand g 0 = []"
| "rand_draws rand g (Suc n) = (let (v, g') = rand g in v # rand_draws rand g' n)"

text \<open>The generator after \<open>n\<close> numbers.\<close>

fun rand_after :: "('g \<Rightarrow> int \<times> 'g) \<Rightarrow> 'g \<Rightarrow> nat \<Rightarrow> 'g" where
  "rand_after rand g 0 = g"
| "rand_after rand g (Suc n) = rand_after rand (snd (rand g)) n"

section \<open>The operations in the spec's words\<close>

text \<open>
  The scalar reference of \<^verbatim>\<open>shiftRight\<close> on complex buffers: every component of the first
  \<open>len\<close> elements is shifted right with its sign bit shifted in.
\<close>

definition ref_shift_right_complex16 :: "complex16 list \<Rightarrow> int \<Rightarrow> int \<Rightarrow> complex16 list" where
  "ref_shift_right_complex16 x len shift =
     map (\<lambda>c. \<lparr>re = signed_drop_bit (nat shift) (re c), im = signed_drop_bit (nat shift) (im c)\<rparr>)
         (take (nat len) x)"

text \<open>
  \<^verbatim>\<open>multiply\<close> and \<^verbatim>\<open>conjugateMultiply\<close> of one pair of elements: the products are formed
  in 32 bits from the sign-extended components, shifted right arithmetically by \<open>k\<close> and
  truncated to 16 bits.
\<close>

definition spec_multiply :: "complex16 \<Rightarrow> complex16 \<Rightarrow> int \<Rightarrow> complex16" where
  "spec_multiply x y k =
     (let xr = (scast (re x) :: int32); xi = (scast (im x) :: int32);
          yr = (scast (re y) :: int32); yi = (scast (im y) :: int32)
      in \<lparr>re = ucast (signed_drop_bit (nat k) (xr * yr - xi * yi)),
          im = ucast (signed_drop_bit (nat k) (xr * yi + xi * yr))\<rparr>)"

definition spec_conjugate_multiply :: "complex16 \<Rightarrow> complex16 \<Rightarrow> int \<Rightarrow> complex16" where
  "spec_conjugate_multiply x y k =
     (let xr = (scast (re x) :: int32); xi = (scast (im x) :: int32);
          yr = (scast (re y) :: int32); yi = (scast (im y) :: int32)
      in \<lparr>re = ucast (signed_drop_bit (nat k) (xr * yr + xi * yi)),
          im = ucast (signed_drop_bit (nat k) (xi * yr - xr * yi))\<rparr>)"

text \<open>
  What one iteration of the vector loop of \<^verbatim>\<open>__ext_v_mul_complex16\<close> stores in one element:
  \<^verbatim>\<open>_mm_madd_epi16\<close> forms \<open>re x * re y + (- im x) * im y\<close> and \<open>im x * re y + re x * im y\<close>
  in 32 bits, where the imaginary part of \<open>x\<close> has been negated as a 16-bit lane (the xor
  with \<^verbatim>\<open>0xFFFF0000\<close> and the addition of \<^verbatim>\<open>0x00010000\<close>). The conjugate kernels negate
  the imaginary part of \<open>y\<close> in the same way.
\<close>

definition vec_multiply :: "complex16 \<Rightarrow> complex16 \<Rightarrow> int \<Rightarrow> complex16" where
  "vec_multiply x y k =
     \<lparr>re = ucast (signed_drop_bit (nat k) (madd_pair (re x) (- im x) (re y) (im y))),
      im = ucast (signed_drop_bit (nat k) (madd_pair (im x) (re x) (re y) (im y)))\<rparr>"

definition vec_conjugate_multiply :: "complex16 \<Rightarrow> complex16 \<Rightarrow> int \<Rightarrow> complex16" where
  "vec_conjugate_multiply x y k =
     \<lparr>re = ucast (signed_drop_bit (nat k) (madd_pair (re y) (im y) (re x) (im x))),
      im = ucast (signed_drop_bit (nat k) (madd_pair (- im y) (re y) (re x) (im x)))\<rparr>"

text \<open>
  The 32-bit variant of \<^verbatim>\<open>conjugateMultiply\<close> of one pair of elements, real part first: in
  the spec's words and as the vector loop forms it.
\<close>

definition spec_conjugate_multiply_int32 :: "complex16 \<Rightarrow> complex16 \<Rightarrow> int32 \<times> int32" where
  "spec_conjugate_multiply_int32 x y =
     (let xr = (scast (re x) :: int32); xi = (scast (im x) :: int32);
          yr = (scast (re y) :: int32); yi = (scast (im y) :: int32)
      in (xr * yr + xi * yi, xi * yr - xr * yi))"

definition vec_conjugate_multiply_int32 :: "complex16 \<Rightarrow> complex16 \<Rightarrow> int32 \<times> int32" where
  "vec_conjugate_multiply_int32 x y =
     (madd_pair (re y) (im y) (re x) (im x), madd_pair (- im y) (re y) (re x) (im x))"

text \<open>A complex number componentwise: one function on both parts, of one or of two numbers.\<close>

definition cplx_map :: "('a \<Rightarrow> 'b) \<Rightarrow> 'a cplx \<Rightarrow> 'b cplx" where
  "cplx_map f x = \<lparr>re = f (re x), im = f (im x)\<rparr>"

definition cplx_map2 :: "('a \<Rightarrow> 'b \<Rightarrow> 'c) \<Rightarrow> 'a cplx \<Rightarrow> 'b cplx \<Rightarrow> 'c cplx" where
  "cplx_map2 f x y = \<lparr>re = f (re x) (re y), im = f (im x) (im y)\<rparr>"

section \<open>Loops and casts\<close>

lemma for_loop_once: "for_loop 0 1 body s = body 0 s"
  by (simp add: for_loop_def)

lemma for_loop_empty: "hi \<le> lo \<Longrightarrow> for_loop lo hi body s = s"
  by (simp add: for_loop_def)

lemma c_div_4_4: "c_div 4 4 = 1"
  by (simp add: c_div_def)

lemma c_div_nonneg: "0 \<le> a \<Longrightarrow> 0 < b \<Longrightarrow> c_div a b = a div b"
  by (cases "a = 0") (simp_all add: c_div_def)

lemma upto_eq_map_int:
  "0 \<le> lo \<Longrightarrow> [lo..hi - 1] = map int [nat lo..<nat hi]"
proof (induction "nat (hi - lo)" arbitrary: lo)
  case 0
  then show ?case by simp
next
  case (Suc n)
  then have lt: "lo < hi" by linarith
  have "[lo..hi - 1] = lo # [lo + 1..hi - 1]"
    using lt by (simp add: upto_rec1)
  also have "[lo + 1..hi - 1] = map int [nat (lo + 1)..<nat hi]"
    using Suc by (intro Suc.hyps) auto
  also have "lo # map int [nat (lo + 1)..<nat hi] = map int [nat lo..<nat hi]"
    using lt Suc.prems by (simp add: upt_conv_Cons nat_add_distrib)
  finally show ?case .
qed

lemma for_loop_nat:
  "0 \<le> lo \<Longrightarrow> for_loop lo hi body s = fold (\<lambda>k. body (int k)) [nat lo..<nat hi] s"
  by (simp add: for_loop_def upto_eq_map_int fold_map comp_def)

lemma nth_list_update_total:
  "xs[i := v] ! j = (if i = j \<and> i < length xs then v else xs ! j)"
  by (cases "i < length xs") (auto simp: nth_list_update list_update_beyond)

lemma length_fold_update:
  "length (fold (\<lambda>k out. out[g k := f k]) ks out) = length out"
  by (induction ks arbitrary: out) simp_all

lemma nth_fold_update_off:
  "(fold (\<lambda>k m. m[off + k := f k]) [0..<n] mem) ! j =
     (if off \<le> j \<and> j < off + n \<and> j < length mem then f (j - off) else mem ! j)"
proof (induction n)
  case 0
  then show ?case by auto
next
  case (Suc n)
  then show ?case
    by (auto simp: nth_list_update_total length_fold_update less_Suc_eq)
qed

lemma bit_of_lanes:
  "bit (of_lanes ws :: 'b::len word) n \<longleftrightarrow>
     n < LENGTH('b) \<and> n div LENGTH('a) < length ws \<and> bit (ws ! (n div LENGTH('a))) (n mod LENGTH('a))"
  for ws :: "'a::len word list"
  by (simp add: of_lanes_def bit_word_of_int_iff bit_horner_sum_uint_exp_iff)

lemma lane_of_lanes:
  fixes ws :: "'a::len word list"
  assumes "k < length ws" "length ws * LENGTH('a) \<le> LENGTH('b::len)"
  shows "(lane k (of_lanes ws :: 'b word) :: 'a word) = ws ! k"
proof (rule bit_word_eqI)
  fix n assume n: "n < LENGTH('a)"
  have "k * LENGTH('a) + n < (k + 1) * LENGTH('a)" using n by simp
  also have "\<dots> \<le> length ws * LENGTH('a)" using assms(1) by (intro mult_le_mono1) simp
  finally have "k * LENGTH('a) + n < length ws * LENGTH('a)" .
  then have lt: "k * LENGTH('a) + n < LENGTH('b)" using assms(2) by simp
  show "bit (lane k (of_lanes ws :: 'b word) :: 'a word) n = bit (ws ! k) n"
    using n lt assms(1)
    by (simp add: lane_def bit_ucast_iff bit_drop_bit_eq bit_of_lanes)
qed

lemma length_store_w: "length (store_w mem off v) = length mem"
  by (simp add: store_w_def length_fold_update)

lemma nth_store_w:
  fixes mem :: "'a::len word list" and v :: "'b::len word"
  shows "store_w mem off v ! j =
     (if off \<le> j \<and> j < off + LENGTH('b) div LENGTH('a) \<and> j < length mem
      then lane (j - off) v else mem ! j)"
  by (simp add: store_w_def nth_fold_update_off)

lemma lane_load_w:
  fixes mem :: "'a::len word list"
  assumes "k < LENGTH('b::len) div LENGTH('a)" "off + LENGTH('b) div LENGTH('a) \<le> length mem"
  shows "(lane k (load_w mem off :: 'b word) :: 'a word) = mem ! (off + k)"
proof -
  let ?n = "LENGTH('b) div LENGTH('a)"
  have len: "length (take ?n (drop off mem)) = ?n"
    using assms(2) by simp
  have "(lane k (load_w mem off :: 'b word) :: 'a word) = take ?n (drop off mem) ! k"
    unfolding load_w_def using assms(1) len
    by (intro lane_of_lanes) simp_all
  also have "\<dots> = mem ! (off + k)"
    using assms by simp
  finally show ?thesis .
qed

lemma lane_or: "lane k (a OR b) = lane k a OR lane k b"
  by (rule bit_word_eqI) (auto simp: lane_def bit_ucast_iff bit_drop_bit_eq bit_or_iff)

lemma or_via_int8: "(ucast ((ucast a :: int32) OR ucast b) :: unum8) = a OR b"
  by (rule bit_word_eqI) (auto simp: bit_ucast_iff bit_or_iff)

lemma or_via_int16: "(ucast ((ucast a :: int32) OR ucast b) :: unum16) = a OR b"
  by (rule bit_word_eqI) (auto simp: bit_ucast_iff bit_or_iff)

lemma word_of_int_sint: "word_of_int (sint w) = w"
  by (metis scast_eq scast_id)

lemma ucast_down_wi32_16:
  "(ucast (word_of_int k :: 32 word) :: 16 word) = word_of_int k"
  by (rule bit_word_eqI) (simp add: bit_ucast_iff bit_word_of_int_iff)

lemma ucast_scast_add4:
  "(ucast ((scast a :: 32 word) + scast b + scast c + scast d) :: 16 word) = a + b + c + d"
proof -
  have "(ucast ((scast a :: 32 word) + scast b + scast c + scast d) :: 16 word)
        = word_of_int (sint a + sint b + sint c + sint d)"
    by (simp only: scast_eq wi_hom_add ucast_down_wi32_16)
  also have "\<dots> = a + b + c + d"
    by (simp only: wi_hom_syms word_of_int_sint)
  finally show ?thesis .
qed

lemma for_loop_0_4: "for_loop 0 4 body s = body 3 (body 2 (body 1 (body 0 s)))"
  by (simp add: for_loop_def upto_rec1)

lemma for_loop_1_4: "for_loop 1 4 body s = body 3 (body 2 (body 1 s))"
  by (simp add: for_loop_def upto_rec1)

subsection \<open>A vector loop followed by a scalar loop\<close>

text \<open>
  The shape of every arithmetic kernel: a loop over whole vectors, each writing one block of
  \<open>n\<close> elements, and a loop over the remaining elements. Together they write \<open>g j\<close> to
  every element \<open>j\<close> below \<open>len\<close> and nothing else.
\<close>

lemma nat_c_div: "0 \<le> a \<Longrightarrow> 0 < b \<Longrightarrow> nat (c_div a b) = nat a div nat b"
  by (simp add: c_div_nonneg nat_div_distrib)

lemma nth_fold_update:
  "(fold (\<lambda>k out. out[k := f k]) [lo..<hi] out) ! j =
     (if lo \<le> j \<and> j < hi \<and> j < length out then f j else out ! j)"
proof (induction hi)
  case 0
  then show ?case by simp
next
  case (Suc hi)
  show ?case
  proof (cases "lo \<le> hi")
    case True
    then show ?thesis
      using Suc by (auto simp: nth_list_update_total length_fold_update less_Suc_eq)
  next
    case False
    then show ?thesis by auto
  qed
qed

lemma fold_blocks:
  fixes step :: "nat \<Rightarrow> 'x list \<Rightarrow> 'x list"
  assumes len: "\<And>i c. length (step i c) = length c"
      and nth: "\<And>i c j. i < m \<Longrightarrow> j < length c \<Longrightarrow>
                 step i c ! j = (if n * i \<le> j \<and> j < n * i + n then g j else c ! j)"
  shows "length (fold step [0..<m] c) = length c
       \<and> (j < length c \<longrightarrow> fold step [0..<m] c ! j = (if j < n * m then g j else c ! j))"
  using nth
proof (induction m)
  case 0
  then show ?case by simp
next
  case (Suc m)
  have IH: "length (fold step [0..<m] c) = length c
       \<and> (j < length c \<longrightarrow> fold step [0..<m] c ! j = (if j < n * m then g j else c ! j))"
    using Suc.prems by (intro Suc.IH) simp
  have "fold step [0..<Suc m] c = step m (fold step [0..<m] c)"
    by simp
  moreover have "j < length c \<Longrightarrow> step m (fold step [0..<m] c) ! j
      = (if n * m \<le> j \<and> j < n * m + n then g j else fold step [0..<m] c ! j)"
    using Suc.prems [of m j "fold step [0..<m] c"] IH by simp
  ultimately show ?case
    using IH by (auto simp: len)
qed

lemma vec_then_scalar2:
  fixes vstep :: "nat \<Rightarrow> 'x list \<Rightarrow> 'x list"
  assumes "0 \<le> len" "nat len \<le> length c" "0 < n"
      and vlen: "\<And>i c. length (vstep i c) = length c"
      and vnth: "\<And>i c j. n * i + n \<le> nat len \<Longrightarrow> j < length c \<Longrightarrow>
                 vstep i c ! j = (if n * i \<le> j \<and> j < n * i + n then g j else c ! j)"
  shows "for_loop (c_div len (int n) * int n) len (\<lambda>i c. c[nat i := h (nat i)])
           (for_loop 0 (c_div len (int n)) (\<lambda>i. vstep (nat i)) c)
         = map (\<lambda>j. if j < n * (nat len div n) then g j else h j) [0..<nat len] @ drop (nat len) c"
proof -
  define m where "m = nat len div n"
  define c1 where "c1 = fold vstep [0..<m] c"
  have nm: "n * m \<le> nat len" by (simp add: m_def)
  have cd: "c_div len (int n) = int m"
    using assms(1,3) by (simp add: c_div_nonneg m_def zdiv_int)
  have c1: "length c1 = length c
       \<and> (j < length c \<longrightarrow> c1 ! j = (if j < n * m then g j else c ! j))" for j
    unfolding c1_def
  proof (rule fold_blocks [OF vlen])
    fix i c j assume "i < m" "j < length (c :: 'x list)"
    then have "n * Suc i \<le> n * m"
      by (intro mult_le_mono2) simp
    then have "n * i + n \<le> n * m"
      by simp
    then show "vstep i c ! j = (if n * i \<le> j \<and> j < n * i + n then g j else c ! j)"
      using nm \<open>j < length c\<close> by (intro vnth) simp_all
  qed
  have loops: "for_loop (c_div len (int n) * int n) len (\<lambda>i c. c[nat i := h (nat i)])
           (for_loop 0 (c_div len (int n)) (\<lambda>i. vstep (nat i)) c)
       = fold (\<lambda>k out. out[k := h k]) [n * m..<nat len] c1"
    by (simp add: cd for_loop_nat c1_def nat_mult_distrib mult.commute)
  show ?thesis
    unfolding loops m_def [symmetric]
  proof (rule nth_equalityI)
    show "length (fold (\<lambda>k out. out[k := h k]) [n * m..<nat len] c1)
        = length (map (\<lambda>j. if j < n * m then g j else h j) [0..<nat len] @ drop (nat len) c)"
      using assms(2) c1 by (simp add: length_fold_update)
  next
    fix j assume "j < length (fold (\<lambda>k out. out[k := h k]) [n * m..<nat len] c1)"
    then have j: "j < length c" using c1 by (simp add: length_fold_update)
    show "fold (\<lambda>k out. out[k := h k]) [n * m..<nat len] c1 ! j
        = (map (\<lambda>j. if j < n * m then g j else h j) [0..<nat len] @ drop (nat len) c) ! j"
      using assms(2) j nm c1 [of j]
      by (auto simp: nth_fold_update nth_append)
  qed
qed

lemma vec_then_scalar:
  fixes vstep :: "nat \<Rightarrow> 'x list \<Rightarrow> 'x list"
  assumes "0 \<le> len" "nat len \<le> length c" "0 < n"
      and "\<And>i c. length (vstep i c) = length c"
      and "\<And>i c j. n * i + n \<le> nat len \<Longrightarrow> j < length c \<Longrightarrow>
                 vstep i c ! j = (if n * i \<le> j \<and> j < n * i + n then g j else c ! j)"
  shows "for_loop (c_div len (int n) * int n) len (\<lambda>i c. c[nat i := g (nat i)])
           (for_loop 0 (c_div len (int n)) (\<lambda>i. vstep (nat i)) c)
         = map g [0..<nat len] @ drop (nat len) c"
  using vec_then_scalar2 [where h = g and g = g and vstep = vstep, OF assms] by simp

lemma map_nth_zip:
  assumes "n \<le> length a" "n \<le> length b"
  shows "map (\<lambda>j. f (a ! j) (b ! j)) [0..<n] = map2 f (take n a) (take n b)"
  using assms by (intro nth_equalityI) simp_all

lemma map_nth_take:
  assumes "n \<le> length a"
  shows "map (\<lambda>j. f (a ! j)) [0..<n] = map f (take n a)"
  using assms by (intro nth_equalityI) simp_all

subsection \<open>Lanes of the intrinsics\<close>

lemma ucast_scast_add:
  "(ucast ((scast a :: 32 word) + scast b) :: 16 word) = a + b"
proof -
  have "(ucast ((scast a :: 32 word) + scast b) :: 16 word) = word_of_int (sint a + sint b)"
    by (simp only: scast_eq wi_hom_add ucast_down_wi32_16)
  also have "\<dots> = a + b"
    by (simp only: wi_hom_syms word_of_int_sint)
  finally show ?thesis .
qed

lemma ucast_scast_sub:
  "(ucast ((scast a :: 32 word) - scast b) :: 16 word) = a - b"
proof -
  have "(ucast ((scast a :: 32 word) - scast b) :: 16 word) = word_of_int (sint a - sint b)"
    by (simp only: scast_eq wi_hom_sub ucast_down_wi32_16)
  also have "\<dots> = a - b"
    by (simp only: wi_hom_syms word_of_int_sint)
  finally show ?thesis .
qed

lemma lanes_length [simp]: "length (lanes n v) = n"
  by (simp add: lanes_def)

lemma lanes_nth [simp]: "k < n \<Longrightarrow> lanes n v ! k = lane k v"
  by (simp add: lanes_def)

lemma nth_storeu_si128:
  fixes mem :: "'a::len word list"
  shows "mm_storeu_si128 mem off v ! j =
     (if off \<le> j \<and> j < off + 128 div LENGTH('a) \<and> j < length mem
      then lane (j - off) v else mem ! j)"
  by (simp add: mm_storeu_si128_def nth_store_w)

lemma length_storeu_si128 [simp]: "length (mm_storeu_si128 mem off v) = length mem"
  by (simp add: mm_storeu_si128_def length_store_w)

lemma lane_loadu_si128:
  fixes mem :: "'a::len word list"
  assumes "k < 128 div LENGTH('a)" "off + 128 div LENGTH('a) \<le> length mem"
  shows "(lane k (mm_loadu_si128 mem off) :: 'a word) = mem ! (off + k)"
  using assms by (simp add: mm_loadu_si128_def lane_load_w)

lemma lane_add_epi16: "k < 8 \<Longrightarrow> (lane k (mm_add_epi16 a b) :: int16) = lane k a + lane k b"
  by (simp add: mm_add_epi16_def epi16_def lane_of_lanes)

lemma lane_sub_epi16: "k < 8 \<Longrightarrow> (lane k (mm_sub_epi16 a b) :: int16) = lane k a - lane k b"
  by (simp add: mm_sub_epi16_def epi16_def lane_of_lanes)

lemma lane_add_epi32: "k < 4 \<Longrightarrow> (lane k (mm_add_epi32 a b) :: int32) = lane k a + lane k b"
  by (simp add: mm_add_epi32_def epi32_def lane_of_lanes)

lemma lane_sub_epi32: "k < 4 \<Longrightarrow> (lane k (mm_sub_epi32 a b) :: int32) = lane k a - lane k b"
  by (simp add: mm_sub_epi32_def epi32_def lane_of_lanes)

lemma lane_srai_epi16:
  "k < 8 \<Longrightarrow> (lane k (mm_srai_epi16 a s) :: int16) = signed_drop_bit (shift_count s) (lane k a)"
  by (simp add: mm_srai_epi16_def epi16_def lane_of_lanes)

lemma lane_srai_epi32:
  "k < 4 \<Longrightarrow> (lane k (mm_srai_epi32 a s) :: int32) = signed_drop_bit (shift_count s) (lane k a)"
  by (simp add: mm_srai_epi32_def epi32_def lane_of_lanes)

lemma lane_slli_epi16:
  "k < 8 \<Longrightarrow> (lane k (mm_slli_epi16 a s) :: int16) = push_bit (shift_count s) (lane k a)"
  by (simp add: mm_slli_epi16_def epi16_def lane_of_lanes)

lemma lane_slli_epi32:
  "k < 4 \<Longrightarrow> (lane k (mm_slli_epi32 a s) :: int32) = push_bit (shift_count s) (lane k a)"
  by (simp add: mm_slli_epi32_def epi32_def lane_of_lanes)

lemma shift_count_in_range: "0 \<le> s \<Longrightarrow> s < 256 \<Longrightarrow> shift_count s = nat s"
  by (simp add: shift_count_def)

lemma sar_via_int16:
  "(ucast (signed_drop_bit s (scast x :: int32)) :: int16) = signed_drop_bit s x"
  by (rule bit_word_eqI)
    (auto simp: bit_ucast_iff bit_signed_drop_bit_iff bit_word_scast_iff dest: bit_imp_le_length)

lemma shl_via_int16:
  "(ucast (push_bit s (scast x :: int32)) :: int16) = push_bit s x"
  by (rule bit_word_eqI) (auto simp: bit_ucast_iff bit_push_bit_iff bit_word_scast_iff)

lemma shl_via_uint16:
  "(ucast (push_bit s (ucast x :: int32)) :: int16) = push_bit s x"
  by (rule bit_word_eqI) (auto simp: bit_ucast_iff bit_push_bit_iff)

lemma shr_via_uint16:
  "(ucast (signed_drop_bit s (ucast x :: int32)) :: int16) = drop_bit s x"
  by (rule bit_word_eqI)
    (auto simp: bit_ucast_iff bit_signed_drop_bit_iff bit_drop_bit_eq dest: bit_imp_le_length)

subsection \<open>Complex buffers as flat arrays\<close>

lemma length_flat [simp]: "length (flat xs) = 2 * length xs"
  by (induction xs) simp_all

lemma length_unflat [simp]: "length (unflat ys) = length ys div 2"
  by (induction ys rule: unflat.induct) simp_all

lemma unflat_flat [simp]: "unflat (flat xs) = xs"
  by (induction xs) simp_all

lemma flat_unflat: "even (length ys) \<Longrightarrow> flat (unflat ys) = ys"
  by (induction ys rule: unflat.induct) simp_all

lemma nth_unflat:
  "j < length ys div 2 \<Longrightarrow> unflat ys ! j = \<lparr>re = ys ! (2 * j), im = ys ! (2 * j + 1)\<rparr>"
proof (induction ys arbitrary: j rule: unflat.induct)
  case (1 r i rest)
  then show ?case by (cases j) simp_all
qed simp_all

lemma nth_flat:
  "j < length xs \<Longrightarrow> flat xs ! (2 * j) = re (xs ! j) \<and> flat xs ! (2 * j + 1) = im (xs ! j)"
proof (induction xs arbitrary: j)
  case Nil
  then show ?case by simp
next
  case (Cons c cs)
  then show ?case by (cases j) simp_all
qed

lemma nth_flat_re [simp]: "j < length xs \<Longrightarrow> flat xs ! (2 * j) = re (xs ! j)"
  by (simp add: nth_flat)

lemma nth_flat_im [simp]: "j < length xs \<Longrightarrow> flat xs ! Suc (2 * j) = im (xs ! j)"
  using nth_flat [of j xs] by simp

lemma fold_unflat:
  assumes "\<And>k ys. length (F k ys) = length ys"
  shows "fold (\<lambda>k z. unflat (F k (flat z))) ks z = unflat (fold F ks (flat z))"
proof (induction ks arbitrary: z)
  case Nil
  then show ?case by simp
next
  case (Cons k ks)
  have "even (length (F k (flat z)))"
    by (simp add: assms)
  then show ?case
    by (simp add: Cons flat_unflat)
qed

lemma vec_then_flat_scalar:
  fixes vstep :: "nat \<Rightarrow> 'a cplx list \<Rightarrow> 'a cplx list"
  assumes "0 \<le> len" "nat len \<le> length z" "0 < n"
      and vlen: "\<And>i z. length (vstep i z) = length z"
      and vnth: "\<And>i z j. n * i + n \<le> nat len \<Longrightarrow> j < length z \<Longrightarrow>
                 vstep i z ! j = (if n * i \<le> j \<and> j < n * i + n then g j else z ! j)"
  shows "for_loop (c_div len (int n) * int n * 2) (len * 2)
           (\<lambda>i z. unflat ((flat z)[nat i := h (nat i)]))
           (for_loop 0 (c_div len (int n)) (\<lambda>i. vstep (nat i)) z)
         = map (\<lambda>j. if j < n * (nat len div n) then g j else \<lparr>re = h (2 * j), im = h (2 * j + 1)\<rparr>)
             [0..<nat len] @ drop (nat len) z"
proof -
  define m where "m = nat len div n"
  define z1 where "z1 = fold vstep [0..<m] z"
  have nm: "n * m \<le> nat len" by (simp add: m_def)
  have cd: "c_div len (int n) = int m"
    using assms(1,3) by (simp add: c_div_nonneg m_def zdiv_int)
  have z1: "length z1 = length z
       \<and> (j < length z \<longrightarrow> z1 ! j = (if j < n * m then g j else z ! j))" for j
    unfolding z1_def
  proof (rule fold_blocks [OF vlen])
    fix i z j assume "i < m" "j < length (z :: 'a cplx list)"
    then have "n * Suc i \<le> n * m"
      by (intro mult_le_mono2) simp
    then have "n * i + n \<le> n * m"
      by simp
    then show "vstep i z ! j = (if n * i \<le> j \<and> j < n * i + n then g j else z ! j)"
      using nm \<open>j < length z\<close> by (intro vnth) simp_all
  qed
  define U where "U = fold (\<lambda>k ys. ys[k := h k]) [2 * (n * m)..<2 * nat len] (flat z1)"
  have fu: "fold (\<lambda>k z. unflat ((flat z)[k := h k])) ks z'
      = unflat (fold (\<lambda>k ys. ys[k := h k]) ks (flat z'))" for ks z'
    using fold_unflat [where F = "\<lambda>k ys. ys[k := h k]"] by simp
  have loops: "for_loop (c_div len (int n) * int n * 2) (len * 2)
           (\<lambda>i z. unflat ((flat z)[nat i := h (nat i)]))
           (for_loop 0 (c_div len (int n)) (\<lambda>i. vstep (nat i)) z)
       = unflat U"
    using assms(1)
    by (simp add: cd for_loop_nat z1_def U_def nat_mult_distrib fu mult.commute)
  have lenU: "length U = 2 * length z"
    using z1 by (simp add: U_def length_fold_update)
  have nthU: "U ! k = (if 2 * (n * m) \<le> k \<and> k < 2 * nat len \<and> k < 2 * length z then h k else flat z1 ! k)" for k
    using z1 by (simp add: U_def nth_fold_update)
  show ?thesis
    unfolding loops
  proof (rule nth_equalityI)
    show "length (unflat U)
        = length (map (\<lambda>j. if j < n * (nat len div n) then g j else \<lparr>re = h (2 * j), im = h (2 * j + 1)\<rparr>)
             [0..<nat len] @ drop (nat len) z)"
      using assms(2) by (simp add: lenU)
  next
    fix j assume "j < length (unflat U)"
    then have j: "j < length z" by (simp add: lenU)
    have jz1: "j < length z1" using j z1 by simp
    have "unflat U ! j = \<lparr>re = U ! (2 * j), im = U ! (2 * j + 1)\<rparr>"
      using j by (intro nth_unflat) (simp add: lenU)
    also have "\<dots> = (if j < n * m then g j
                     else if j < nat len then \<lparr>re = h (2 * j), im = h (2 * j + 1)\<rparr> else z ! j)"
    proof -
      have eta: "\<lparr>re = flat z1 ! (2 * j), im = flat z1 ! Suc (2 * j)\<rparr> = z1 ! j"
        using jz1 by simp
      show ?thesis
        using j nm z1 [of j] assms(2) eta
        by (auto simp: nthU)
    qed
    finally show "unflat U ! j
        = (map (\<lambda>j. if j < n * (nat len div n) then g j else \<lparr>re = h (2 * j), im = h (2 * j + 1)\<rparr>)
             [0..<nat len] @ drop (nat len) z) ! j"
      unfolding m_def [symmetric] using j assms(2) nm by (auto simp: nth_append)
  qed
qed

lemma nth_storeu_outside:
  fixes mem :: "'a::len word list"
  shows "\<not> (off \<le> k \<and> k < off + 128 div LENGTH('a)) \<Longrightarrow> mm_storeu_si128 mem off v ! k = mem ! k"
  by (auto simp: nth_storeu_si128)

lemma nth_storeu_inside:
  fixes mem :: "'a::len word list"
  shows "off \<le> k \<Longrightarrow> k < off + 128 div LENGTH('a) \<Longrightarrow> k < length mem
    \<Longrightarrow> mm_storeu_si128 mem off v ! k = lane (k - off) v"
  by (simp add: nth_storeu_si128)

lemma nth_unflat_storeu:
  fixes z :: "('a::len word) cplx list" and x :: "('a::len word) cplx list"
  assumes j: "j < length z" and n: "128 div LENGTH('a) = 2 * n"
  shows "unflat (mm_storeu_si128 (flat z) (2 * n * i) v) ! j
     = (if n * i \<le> j \<and> j < n * i + n
        then \<lparr>re = lane (2 * (j - n * i)) v, im = lane (2 * (j - n * i) + 1) v\<rparr>
        else z ! j)"
proof -
  have "unflat (mm_storeu_si128 (flat z) (2 * n * i) v) ! j
      = \<lparr>re = mm_storeu_si128 (flat z) (2 * n * i) v ! (2 * j),
         im = mm_storeu_si128 (flat z) (2 * n * i) v ! (2 * j + 1)\<rparr>"
    using j by (intro nth_unflat) simp
  also have "\<dots> = (if n * i \<le> j \<and> j < n * i + n
        then \<lparr>re = lane (2 * (j - n * i)) v, im = lane (2 * (j - n * i) + 1) v\<rparr>
        else z ! j)"
  proof (cases "n * i \<le> j \<and> j < n * i + n")
    case True
    then have "2 * n * i \<le> 2 * j" "2 * j < 2 * n * i + 2 * n" "2 * j + 1 < 2 * n * i + 2 * n"
      "2 * j - 2 * n * i = 2 * (j - n * i)" "2 * j + 1 - 2 * n * i = 2 * (j - n * i) + 1"
      by auto
    then show ?thesis
      using True j nth_storeu_inside [of "2 * n * i" "2 * j" "flat z" v]
        nth_storeu_inside [of "2 * n * i" "2 * j + 1" "flat z" v]
      unfolding n by simp
  next
    case False
    then have out: "\<not> (2 * n * i \<le> 2 * j \<and> 2 * j < 2 * n * i + 2 * n)"
      "\<not> (2 * n * i \<le> 2 * j + 1 \<and> 2 * j + 1 < 2 * n * i + 2 * n)"
      by auto
    have r: "mm_storeu_si128 (flat z) (2 * n * i) v ! (2 * j) = re (z ! j)"
      using nth_storeu_outside [of "2 * n * i" "2 * j" "flat z" v] out(1) j
      unfolding n by simp
    have m: "mm_storeu_si128 (flat z) (2 * n * i) v ! (2 * j + 1) = im (z ! j)"
      using nth_storeu_outside [of "2 * n * i" "2 * j + 1" "flat z" v] out(2) j
      unfolding n by simp
    have eta: "\<lparr>re = re (z ! j), im = im (z ! j)\<rparr> = z ! j"
      by simp
    show ?thesis
      by (simp only: False r m eta if_False)
  qed
  finally show ?thesis .
qed

lemma lane_loadu_flat:
  fixes x :: "('a::len word) cplx list"
  assumes n: "128 div LENGTH('a) = 2 * n" and "n * i \<le> j" "j < n * i + n" "n * i + n \<le> length x"
  shows "(lane (2 * (j - n * i)) (mm_loadu_si128 (flat x) (2 * n * i)) :: 'a word) = re (x ! j)"
    and "(lane (2 * (j - n * i) + 1) (mm_loadu_si128 (flat x) (2 * n * i)) :: 'a word) = im (x ! j)"
proof -
  have k: "2 * (j - n * i) + 1 < 128 div LENGTH('a)" "2 * (j - n * i) < 128 div LENGTH('a)"
    using assms by auto
  have l: "2 * n * i + 128 div LENGTH('a) \<le> length (flat x)"
    using assms by simp
  have j: "j < length x" using assms by simp
  have i1: "2 * n * i + 2 * (j - n * i) = 2 * j" using assms by auto
  have i2: "2 * n * i + (2 * (j - n * i) + 1) = Suc (2 * j)" using assms by auto
  show "(lane (2 * (j - n * i)) (mm_loadu_si128 (flat x) (2 * n * i)) :: 'a word) = re (x ! j)"
    using lane_loadu_si128 [OF k(2) l] j by (simp only: i1 nth_flat_re)
  show "(lane (2 * (j - n * i) + 1) (mm_loadu_si128 (flat x) (2 * n * i)) :: 'a word) = im (x ! j)"
    using lane_loadu_si128 [OF k(1) l] j by (simp only: i2 nth_flat_im)
qed

lemma length_unflat_storeu [simp]:
  "length (unflat (mm_storeu_si128 (flat z) off v)) = length z"
  by simp

lemma ucast_scast_add_int:
  "(ucast ((scast r :: 32 word) + v) :: 16 word) = r + ucast v"
proof -
  have "(scast r :: 32 word) + v = word_of_int (sint r + uint v)"
    by (simp only: scast_eq wi_hom_add [symmetric] word_of_int_uint)
  then have "(ucast ((scast r :: 32 word) + v) :: 16 word) = word_of_int (sint r + uint v)"
    by (simp only: ucast_down_wi32_16)
  also have "\<dots> = r + ucast v"
    by (simp only: wi_hom_syms word_of_int_sint ucast_eq)
  finally show ?thesis .
qed

lemma ucast_down_add:
  "(ucast (a + b :: 32 word) :: 16 word) = ucast a + ucast b"
proof -
  have "a + b = word_of_int (uint a + uint b)"
    by (simp only: wi_hom_add [symmetric] word_of_int_uint)
  then have "(ucast (a + b) :: 16 word) = word_of_int (uint a + uint b)"
    by (simp only: ucast_down_wi32_16)
  also have "\<dots> = ucast a + ucast b"
    by (simp only: wi_hom_syms ucast_eq [symmetric])
  finally show ?thesis .
qed

section \<open>Sums\<close>

text \<open>
  For \<open>0 \<le> len\<close> and a buffer that holds \<open>len\<close> elements, the sums over a buffer return
  the sum of its first \<open>len\<close> elements at the width of the elements, wrapping: the
  \<^verbatim>\<open>int16\<close> sum in 16 bits, the \<^verbatim>\<open>int32\<close> sum in 32 bits, and the complex sums the two
  sums of the real and of the imaginary parts.
\<close>

lemma fold_add_nth:
  fixes x :: "'a::comm_monoid_add list"
  shows "n \<le> length x \<Longrightarrow> fold (\<lambda>k s. s + f (x ! k)) [0..<n] s = s + sum_list (map f (take n x))"
proof (induction n)
  case 0
  then show ?case by simp
next
  case (Suc n)
  then have n: "n < length x" by simp
  have "fold (\<lambda>k s. s + f (x ! k)) [0..<Suc n] s = fold (\<lambda>k s. s + f (x ! k)) [0..<n] s + f (x ! n)"
    by simp
  also have "\<dots> = s + sum_list (map f (take n x)) + f (x ! n)"
    using Suc by simp
  also have "\<dots> = s + sum_list (map f (take (Suc n) x))"
    using n by (simp add: take_Suc_conv_app_nth add.assoc)
  finally show ?case .
qed

lemma ext_v_sum_int16_correct:
  assumes "0 \<le> len" "len < 2 ^ 32" "nat len \<le> length x"
  shows "ext_v_sum_int16 x len = sum_list (take (nat len) x)"
proof -
  have "ext_v_sum_int16 x len = fold (\<lambda>k s. s + x ! k) [0..<nat len] 0"
    using assms(1,2) by (simp add: ext_v_sum_int16_def for_loop_nat ucast_scast_add)
  also have "\<dots> = 0 + sum_list (map (\<lambda>v. v) (take (nat len) x))"
    using assms(3) by (rule fold_add_nth)
  finally show ?thesis by simp
qed

lemma ext_v_sum_int32_correct:
  assumes "0 \<le> len" "len < 2 ^ 32" "nat len \<le> length x"
  shows "ext_v_sum_int32 x len = sum_list (take (nat len) x)"
proof -
  have "ext_v_sum_int32 x len = fold (\<lambda>k s. s + x ! k) [0..<nat len] 0"
    using assms(1,2) by (simp add: ext_v_sum_int32_def for_loop_nat)
  also have "\<dots> = 0 + sum_list (map (\<lambda>v. v) (take (nat len) x))"
    using assms(3) by (rule fold_add_nth)
  finally show ?thesis by simp
qed

lemma fold_cplx_add:
  "n \<le> length x \<Longrightarrow>
   fold (\<lambda>k (s :: ('a::comm_monoid_add) cplx). s\<lparr>re := re s + re (x ! k), im := im s + im (x ! k)\<rparr>) [0..<n] s
     = \<lparr>re = re s + sum_list (map re (take n x)), im = im s + sum_list (map im (take n x))\<rparr>"
proof (induction n)
  case 0
  then show ?case by simp
next
  case (Suc n)
  then have n: "n < length x" by simp
  show ?case
    using Suc n by (simp add: take_Suc_conv_app_nth add.assoc)
qed

lemma ext_v_sum_complex16_correct:
  assumes "0 \<le> len" "nat len \<le> length x"
  shows "ext_v_sum_complex16 x len
           = \<lparr>re = sum_list (map re (take (nat len) x)), im = sum_list (map im (take (nat len) x))\<rparr>"
proof -
  have "ext_v_sum_complex16 x len
      = fold (\<lambda>k (s :: complex16). s\<lparr>re := re s + re (x ! k), im := im s + im (x ! k)\<rparr>) [0..<nat len]
          \<lparr>re = 0, im = 0\<rparr>"
    using assms(1) by (simp add: ext_v_sum_complex16_def for_loop_nat ucast_scast_add Let_def)
  then show ?thesis
    using assms(2) by (simp add: fold_cplx_add)
qed

lemma ext_v_sum_complex32_correct:
  assumes "0 \<le> len" "nat len \<le> length x"
  shows "ext_v_sum_complex32 x len
           = \<lparr>re = sum_list (map re (take (nat len) x)), im = sum_list (map im (take (nat len) x))\<rparr>"
proof -
  have "ext_v_sum_complex32 x len
      = fold (\<lambda>k (s :: complex32). s\<lparr>re := re s + re (x ! k), im := im s + im (x ! k)\<rparr>) [0..<nat len]
          \<lparr>re = 0, im = 0\<rparr>"
    using assms(1) by (simp add: ext_v_sum_complex32_def for_loop_nat Let_def)
  then show ?thesis
    using assms(2) by (simp add: fold_cplx_add)
qed

text \<open>
  The sums of four elements return the wrapping sum at the width of the elements, but for
  \<^verbatim>\<open>__ext_sumi32\<close>: it returns the low 16 bits of the sum, sign-extended.
\<close>

lemma ext_sumc32_correct:
  "ext_sumc32 x unused_20
     = \<lparr>re = re (x ! 0) + re (x ! 1) + re (x ! 2) + re (x ! 3),
        im = im (x ! 0) + im (x ! 1) + im (x ! 2) + im (x ! 3)\<rparr>"
  by (simp add: ext_sumc32_def)

lemma ext_sumc16_correct:
  "ext_sumc16 x unused_20
     = \<lparr>re = re (x ! 0) + re (x ! 1) + re (x ! 2) + re (x ! 3),
        im = im (x ! 0) + im (x ! 1) + im (x ! 2) + im (x ! 3)\<rparr>"
  by (simp add: ext_sumc16_def ucast_scast_add4)

lemma ext_sumi16_correct: "ext_sumi16 x unused_21 = x ! 0 + x ! 1 + x ! 2 + x ! 3"
  by (simp add: ext_sumi16_def for_loop_0_4 ucast_scast_add)

lemma ext_sumi32_exact:
  "ext_sumi32 x unused_21 = scast (ucast (x ! 0 + x ! 1 + x ! 2 + x ! 3) :: int16)"
proof -
  have "(ucast (x ! 0) + ucast (x ! 1) + ucast (x ! 2) + ucast (x ! 3) :: int16)
      = ucast (x ! 0 + x ! 1 + x ! 2 + x ! 3)"
    by (simp only: ucast_down_add)
  then show ?thesis
    by (simp add: ext_sumi32_def for_loop_0_4 ucast_scast_add_int)
qed

text \<open>
  C6 claims that every \<^verbatim>\<open>sum\<close> accumulates at the width of its result, the sum of four
  \<^verbatim>\<open>int32\<close> included, so that \<^verbatim>\<open>__ext_sumi32\<close> returns the sum modulo \<open>2^32\<close>. Its
  accumulator is an \<^verbatim>\<open>int16\<close>: on the array \<open>65536, 0, 0, 0\<close>, whose sum is \<open>65536\<close>, it
  returns \<open>0\<close>, while \<^verbatim>\<open>__ext_v_sum_int32\<close> returns \<open>65536\<close> on the same array.
\<close>

theorem ext_sumi32_accumulates_in_16_bits:
  "ext_sumi32 [65536, 0, 0, 0] 4 = 0 \<and> (65536 + 0 + 0 + 0 :: int32) = 65536
   \<and> ext_v_sum_int32 [65536, 0, 0, 0] 4 = 65536"
  by code_simp


text \<open>
  C8: \<^verbatim>\<open>hadd\<close> writes the total of its four inputs to each of its four output lanes. For
  every lane \<open>i < 4\<close>, the complex16 kernel writes the wrapping 16-bit sums of the four
  real and of the four imaginary parts, and the int32 kernel the wrapping 32-bit sum of
  the four inputs.
\<close>

theorem hadd_broadcasts_total:
  assumes "i < 4" and "4 \<le> length z" and "4 \<le> length x" and "4 \<le> length zi" and "4 \<le> length xi"
  shows "fst (ext_v_hadd_complex16 z unused_2 x unused_1) ! i
           = \<lparr>re = re (x ! 0) + re (x ! 1) + re (x ! 2) + re (x ! 3),
              im = im (x ! 0) + im (x ! 1) + im (x ! 2) + im (x ! 3)\<rparr>
         \<and> fst (ext_v_hadd_int32 zi unused_21 xi unused_20) ! i = xi ! 0 + xi ! 1 + xi ! 2 + xi ! 3"
proof -
  have i: "i = 0 \<or> i = 1 \<or> i = 2 \<or> i = 3"
    using assms(1) by auto
  have lz: "0 < length z" "Suc 0 < length z" "2 < length z" "3 < length z"
    using assms(2) by auto
  have lzi: "0 < length zi" "Suc 0 < length zi" "2 < length zi" "3 < length zi"
    using assms(4) by auto
  have c16: "fst (ext_v_hadd_complex16 z unused_2 x unused_1) ! i
           = \<lparr>re = re (x ! 0) + re (x ! 1) + re (x ! 2) + re (x ! 3),
              im = im (x ! 0) + im (x ! 1) + im (x ! 2) + im (x ! 3)\<rparr>"
    using i lz
    by (auto simp: ext_v_hadd_complex16_def Let_def for_loop_0_4 ucast_scast_add4 nth_list_update)
  have i32: "fst (ext_v_hadd_int32 zi unused_21 xi unused_20) ! i = xi ! 0 + xi ! 1 + xi ! 2 + xi ! 3"
    using i lzi
    by (auto simp: ext_v_hadd_int32_def Let_def for_loop_1_4 nth_list_update)
  show ?thesis using c16 i32 by simp
qed

theorem hadd_broadcasts_total_witness:
  "fst (ext_v_hadd_complex16 (replicate 4 \<lparr>re = 0, im = 0\<rparr>) 4
          [\<lparr>re = 32767, im = 1\<rparr>, \<lparr>re = 1, im = 2\<rparr>, \<lparr>re = 0, im = 3\<rparr>, \<lparr>re = 0, im = 4\<rparr>] 4) ! 2
     = \<lparr>re = - 32768, im = 10\<rparr>
   \<and> fst (ext_v_hadd_int32 [9, 9, 9, 9] 4 [2147483647, 1, 0, 0] 4) ! 2 = - 2147483648"
  using hadd_broadcasts_total [of 2 "replicate 4 \<lparr>re = 0, im = 0\<rparr>"
      "[\<lparr>re = 32767, im = 1\<rparr>, \<lparr>re = 1, im = 2\<rparr>, \<lparr>re = 0, im = 3\<rparr>, \<lparr>re = 0, im = 4\<rparr>]"
      "[9, 9, 9, 9]" "[2147483647, 1, 0, 0]" 4 4 4 4]
  by simp

section \<open>Addition and subtraction\<close>

text \<open>
  For a length \<open>len \<ge> 0\<close> and buffers that hold \<open>len\<close> elements, each of the eight
  kernels returns the elementwise wrapping sum or difference of the first \<open>len\<close> elements,
  followed by the elements of the output buffer from \<open>len\<close> on: the vector loop and the
  remainder loop together are the scalar loop over all \<open>len\<close> elements.
\<close>

lemma ext_v_add_int16_correct:
  assumes "0 \<le> len" "nat len \<le> length c" "nat len \<le> length a" "nat len \<le> length b"
  shows "fst (ext_v_add_int16 c len a unused_2 b unused_1)
           = map2 (+) (take (nat len) a) (take (nat len) b) @ drop (nat len) c"
proof -
  define g where "g = (\<lambda>j. a ! j + b ! j)"
  define vstep where "vstep = (\<lambda>i (c :: int16 list). mm_storeu_si128 c (8 * i)
      (mm_add_epi16 (mm_loadu_si128 a (8 * i)) (mm_loadu_si128 b (8 * i))))"
  have "fst (ext_v_add_int16 c len a unused_2 b unused_1)
      = for_loop (c_div len (int 8) * int 8) len (\<lambda>i c. c[nat i := g (nat i)])
          (for_loop 0 (c_div len (int 8)) (\<lambda>i. vstep (nat i)) c)"
    by (simp add: ext_v_add_int16_def Let_def ucast_scast_add g_def vstep_def)
  also have "\<dots> = map g [0..<nat len] @ drop (nat len) c"
  proof (rule vec_then_scalar)
    fix i j and c :: "int16 list"
    assume "8 * i + 8 \<le> nat len" "j < length c"
    then show "vstep i c ! j = (if 8 * i \<le> j \<and> j < 8 * i + 8 then g j else c ! j)"
      using assms(3,4)
      by (auto simp: vstep_def g_def nth_storeu_si128 lane_add_epi16 lane_loadu_si128)
  qed (use assms in \<open>simp_all add: vstep_def\<close>)
  also have "map g [0..<nat len] = map2 (+) (take (nat len) a) (take (nat len) b)"
    unfolding g_def using assms(3,4) by (rule map_nth_zip)
  finally show ?thesis .
qed

lemma ext_v_add_int32_correct:
  assumes "0 \<le> len" "nat len \<le> length c" "nat len \<le> length a" "nat len \<le> length b"
  shows "fst (ext_v_add_int32 c len a unused_2 b unused_1)
           = map2 (+) (take (nat len) a) (take (nat len) b) @ drop (nat len) c"
proof -
  define g where "g = (\<lambda>j. a ! j + b ! j)"
  define vstep where "vstep = (\<lambda>i (c :: int32 list). mm_storeu_si128 c (4 * i)
      (mm_add_epi32 (mm_loadu_si128 a (4 * i)) (mm_loadu_si128 b (4 * i))))"
  have "fst (ext_v_add_int32 c len a unused_2 b unused_1)
      = for_loop (c_div len (int 4) * int 4) len (\<lambda>i c. c[nat i := g (nat i)])
          (for_loop 0 (c_div len (int 4)) (\<lambda>i. vstep (nat i)) c)"
    by (simp add: ext_v_add_int32_def Let_def ucast_scast_add g_def vstep_def)
  also have "\<dots> = map g [0..<nat len] @ drop (nat len) c"
  proof (rule vec_then_scalar)
    fix i j and c :: "int32 list"
    assume "4 * i + 4 \<le> nat len" "j < length c"
    then show "vstep i c ! j = (if 4 * i \<le> j \<and> j < 4 * i + 4 then g j else c ! j)"
      using assms(3,4)
      by (auto simp: vstep_def g_def nth_storeu_si128 lane_add_epi32 lane_loadu_si128)
  qed (use assms in \<open>simp_all add: vstep_def\<close>)
  also have "map g [0..<nat len] = map2 (+) (take (nat len) a) (take (nat len) b)"
    unfolding g_def using assms(3,4) by (rule map_nth_zip)
  finally show ?thesis .
qed

lemma ext_v_sub_int16_correct:
  assumes "0 \<le> len" "nat len \<le> length c" "nat len \<le> length a" "nat len \<le> length b"
  shows "fst (ext_v_sub_int16 c len a unused_2 b unused_1)
           = map2 (-) (take (nat len) a) (take (nat len) b) @ drop (nat len) c"
proof -
  define g where "g = (\<lambda>j. a ! j - b ! j)"
  define vstep where "vstep = (\<lambda>i (c :: int16 list). mm_storeu_si128 c (8 * i)
      (mm_sub_epi16 (mm_loadu_si128 a (8 * i)) (mm_loadu_si128 b (8 * i))))"
  have "fst (ext_v_sub_int16 c len a unused_2 b unused_1)
      = for_loop (c_div len (int 8) * int 8) len (\<lambda>i c. c[nat i := g (nat i)])
          (for_loop 0 (c_div len (int 8)) (\<lambda>i. vstep (nat i)) c)"
    by (simp add: ext_v_sub_int16_def Let_def ucast_scast_sub g_def vstep_def)
  also have "\<dots> = map g [0..<nat len] @ drop (nat len) c"
  proof (rule vec_then_scalar)
    fix i j and c :: "int16 list"
    assume "8 * i + 8 \<le> nat len" "j < length c"
    then show "vstep i c ! j = (if 8 * i \<le> j \<and> j < 8 * i + 8 then g j else c ! j)"
      using assms(3,4)
      by (auto simp: vstep_def g_def nth_storeu_si128 lane_sub_epi16 lane_loadu_si128)
  qed (use assms in \<open>simp_all add: vstep_def\<close>)
  also have "map g [0..<nat len] = map2 (-) (take (nat len) a) (take (nat len) b)"
    unfolding g_def using assms(3,4) by (rule map_nth_zip)
  finally show ?thesis .
qed

lemma ext_v_sub_int32_correct:
  assumes "0 \<le> len" "nat len \<le> length c" "nat len \<le> length a" "nat len \<le> length b"
  shows "fst (ext_v_sub_int32 c len a unused_2 b unused_1)
           = map2 (-) (take (nat len) a) (take (nat len) b) @ drop (nat len) c"
proof -
  define g where "g = (\<lambda>j. a ! j - b ! j)"
  define vstep where "vstep = (\<lambda>i (c :: int32 list). mm_storeu_si128 c (4 * i)
      (mm_sub_epi32 (mm_loadu_si128 a (4 * i)) (mm_loadu_si128 b (4 * i))))"
  have "fst (ext_v_sub_int32 c len a unused_2 b unused_1)
      = for_loop (c_div len (int 4) * int 4) len (\<lambda>i c. c[nat i := g (nat i)])
          (for_loop 0 (c_div len (int 4)) (\<lambda>i. vstep (nat i)) c)"
    by (simp add: ext_v_sub_int32_def Let_def ucast_scast_sub g_def vstep_def)
  also have "\<dots> = map g [0..<nat len] @ drop (nat len) c"
  proof (rule vec_then_scalar)
    fix i j and c :: "int32 list"
    assume "4 * i + 4 \<le> nat len" "j < length c"
    then show "vstep i c ! j = (if 4 * i \<le> j \<and> j < 4 * i + 4 then g j else c ! j)"
      using assms(3,4)
      by (auto simp: vstep_def g_def nth_storeu_si128 lane_sub_epi32 lane_loadu_si128)
  qed (use assms in \<open>simp_all add: vstep_def\<close>)
  also have "map g [0..<nat len] = map2 (-) (take (nat len) a) (take (nat len) b)"
    unfolding g_def using assms(3,4) by (rule map_nth_zip)
  finally show ?thesis .
qed

lemma ext_v_add_complex16_correct:
  assumes "0 \<le> len" "nat len \<le> length c" "nat len \<le> length a" "nat len \<le> length b"
  shows "fst (ext_v_add_complex16 c len a unused_2 b unused_1)
           = map2 (cplx_map2 (+)) (take (nat len) a) (take (nat len) b) @ drop (nat len) c"
proof -
  define g where "g = (\<lambda>j. cplx_map2 (+) (a ! j) (b ! j))"
  define vstep where "vstep = (\<lambda>i (c :: complex16 list). unflat (mm_storeu_si128 (flat c) (8 * i)
      (mm_add_epi16 (mm_loadu_si128 (flat a) (8 * i)) (mm_loadu_si128 (flat b) (8 * i)))))"
  have "fst (ext_v_add_complex16 c len a unused_2 b unused_1)
      = for_loop (c_div len (int 4) * int 4) len (\<lambda>i c. c[nat i := g (nat i)])
          (for_loop 0 (c_div len (int 4)) (\<lambda>i. vstep (nat i)) c)"
    by (simp add: ext_v_add_complex16_def Let_def ucast_scast_add g_def vstep_def cplx_map2_def)
  also have "\<dots> = map g [0..<nat len] @ drop (nat len) c"
  proof (rule vec_then_scalar)
    fix i j and c :: "complex16 list"
    assume *: "4 * i + 4 \<le> nat len" "j < length c"
    have n: "128 div LENGTH(16) = 2 * 4" by simp
    show "vstep i c ! j = (if 4 * i \<le> j \<and> j < 4 * i + 4 then g j else c ! j)"
    proof (cases "4 * i \<le> j \<and> j < 4 * i + 4")
      case True
      then have k: "2 * (j - 4 * i) < 8" "2 * (j - 4 * i) + 1 < 8" by auto
      have la: "4 * i + 4 \<le> length a" and lb: "4 * i + 4 \<le> length b"
        using * assms by auto
      show ?thesis
        using True *(2) k nth_unflat_storeu [OF *(2) n, of i]
          lane_loadu_flat [OF n _ _ la, of j] lane_loadu_flat [OF n _ _ lb, of j]
        by (simp add: vstep_def g_def cplx_map2_def lane_add_epi16)
    next
      case False
      then show ?thesis
        using *(2) nth_unflat_storeu [OF *(2) n, of i] by (auto simp: vstep_def)
    qed
  qed (use assms in \<open>simp_all add: vstep_def\<close>)
  also have "map g [0..<nat len] = map2 (cplx_map2 (+)) (take (nat len) a) (take (nat len) b)"
    unfolding g_def using assms(3,4) by (rule map_nth_zip)
  finally show ?thesis .
qed

lemma ext_v_add_complex32_correct:
  assumes "0 \<le> len" "nat len \<le> length c" "nat len \<le> length a" "nat len \<le> length b"
  shows "fst (ext_v_add_complex32 c len a unused_2 b unused_1)
           = map2 (cplx_map2 (+)) (take (nat len) a) (take (nat len) b) @ drop (nat len) c"
proof -
  define g where "g = (\<lambda>j. cplx_map2 (+) (a ! j) (b ! j))"
  define vstep where "vstep = (\<lambda>i (c :: complex32 list). unflat (mm_storeu_si128 (flat c) (4 * i)
      (mm_add_epi32 (mm_loadu_si128 (flat a) (4 * i)) (mm_loadu_si128 (flat b) (4 * i)))))"
  have "fst (ext_v_add_complex32 c len a unused_2 b unused_1)
      = for_loop (c_div len (int 2) * int 2) len (\<lambda>i c. c[nat i := g (nat i)])
          (for_loop 0 (c_div len (int 2)) (\<lambda>i. vstep (nat i)) c)"
    by (simp add: ext_v_add_complex32_def Let_def ucast_scast_add g_def vstep_def cplx_map2_def)
  also have "\<dots> = map g [0..<nat len] @ drop (nat len) c"
  proof (rule vec_then_scalar)
    fix i j and c :: "complex32 list"
    assume *: "2 * i + 2 \<le> nat len" "j < length c"
    have n: "128 div LENGTH(32) = 2 * 2" by simp
    show "vstep i c ! j = (if 2 * i \<le> j \<and> j < 2 * i + 2 then g j else c ! j)"
    proof (cases "2 * i \<le> j \<and> j < 2 * i + 2")
      case True
      then have k: "2 * (j - 2 * i) < 4" "2 * (j - 2 * i) + 1 < 4" by auto
      have la: "2 * i + 2 \<le> length a" and lb: "2 * i + 2 \<le> length b"
        using * assms by auto
      show ?thesis
        using True *(2) k nth_unflat_storeu [OF *(2) n, of i]
          lane_loadu_flat [OF n _ _ la, of j] lane_loadu_flat [OF n _ _ lb, of j]
        by (simp add: vstep_def g_def cplx_map2_def lane_add_epi32)
    next
      case False
      then show ?thesis
        using *(2) nth_unflat_storeu [OF *(2) n, of i] by (auto simp: vstep_def)
    qed
  qed (use assms in \<open>simp_all add: vstep_def\<close>)
  also have "map g [0..<nat len] = map2 (cplx_map2 (+)) (take (nat len) a) (take (nat len) b)"
    unfolding g_def using assms(3,4) by (rule map_nth_zip)
  finally show ?thesis .
qed

lemma ext_v_sub_complex16_correct:
  assumes "0 \<le> len" "nat len \<le> length c" "nat len \<le> length a" "nat len \<le> length b"
  shows "fst (ext_v_sub_complex16 c len a unused_2 b unused_1)
           = map2 (cplx_map2 (-)) (take (nat len) a) (take (nat len) b) @ drop (nat len) c"
proof -
  define g where "g = (\<lambda>j. cplx_map2 (-) (a ! j) (b ! j))"
  define vstep where "vstep = (\<lambda>i (c :: complex16 list). unflat (mm_storeu_si128 (flat c) (8 * i)
      (mm_sub_epi16 (mm_loadu_si128 (flat a) (8 * i)) (mm_loadu_si128 (flat b) (8 * i)))))"
  have "fst (ext_v_sub_complex16 c len a unused_2 b unused_1)
      = for_loop (c_div len (int 4) * int 4) len (\<lambda>i c. c[nat i := g (nat i)])
          (for_loop 0 (c_div len (int 4)) (\<lambda>i. vstep (nat i)) c)"
    by (simp add: ext_v_sub_complex16_def Let_def ucast_scast_sub g_def vstep_def cplx_map2_def)
  also have "\<dots> = map g [0..<nat len] @ drop (nat len) c"
  proof (rule vec_then_scalar)
    fix i j and c :: "complex16 list"
    assume *: "4 * i + 4 \<le> nat len" "j < length c"
    have n: "128 div LENGTH(16) = 2 * 4" by simp
    show "vstep i c ! j = (if 4 * i \<le> j \<and> j < 4 * i + 4 then g j else c ! j)"
    proof (cases "4 * i \<le> j \<and> j < 4 * i + 4")
      case True
      then have k: "2 * (j - 4 * i) < 8" "2 * (j - 4 * i) + 1 < 8" by auto
      have la: "4 * i + 4 \<le> length a" and lb: "4 * i + 4 \<le> length b"
        using * assms by auto
      show ?thesis
        using True *(2) k nth_unflat_storeu [OF *(2) n, of i]
          lane_loadu_flat [OF n _ _ la, of j] lane_loadu_flat [OF n _ _ lb, of j]
        by (simp add: vstep_def g_def cplx_map2_def lane_sub_epi16)
    next
      case False
      then show ?thesis
        using *(2) nth_unflat_storeu [OF *(2) n, of i] by (auto simp: vstep_def)
    qed
  qed (use assms in \<open>simp_all add: vstep_def\<close>)
  also have "map g [0..<nat len] = map2 (cplx_map2 (-)) (take (nat len) a) (take (nat len) b)"
    unfolding g_def using assms(3,4) by (rule map_nth_zip)
  finally show ?thesis .
qed

lemma ext_v_sub_complex32_correct:
  assumes "0 \<le> len" "nat len \<le> length c" "nat len \<le> length a" "nat len \<le> length b"
  shows "fst (ext_v_sub_complex32 c len a unused_2 b unused_1)
           = map2 (cplx_map2 (-)) (take (nat len) a) (take (nat len) b) @ drop (nat len) c"
proof -
  define g where "g = (\<lambda>j. cplx_map2 (-) (a ! j) (b ! j))"
  define vstep where "vstep = (\<lambda>i (c :: complex32 list). unflat (mm_storeu_si128 (flat c) (4 * i)
      (mm_sub_epi32 (mm_loadu_si128 (flat a) (4 * i)) (mm_loadu_si128 (flat b) (4 * i)))))"
  have "fst (ext_v_sub_complex32 c len a unused_2 b unused_1)
      = for_loop (c_div len (int 2) * int 2) len (\<lambda>i c. c[nat i := g (nat i)])
          (for_loop 0 (c_div len (int 2)) (\<lambda>i. vstep (nat i)) c)"
    by (simp add: ext_v_sub_complex32_def Let_def ucast_scast_sub g_def vstep_def cplx_map2_def)
  also have "\<dots> = map g [0..<nat len] @ drop (nat len) c"
  proof (rule vec_then_scalar)
    fix i j and c :: "complex32 list"
    assume *: "2 * i + 2 \<le> nat len" "j < length c"
    have n: "128 div LENGTH(32) = 2 * 2" by simp
    show "vstep i c ! j = (if 2 * i \<le> j \<and> j < 2 * i + 2 then g j else c ! j)"
    proof (cases "2 * i \<le> j \<and> j < 2 * i + 2")
      case True
      then have k: "2 * (j - 2 * i) < 4" "2 * (j - 2 * i) + 1 < 4" by auto
      have la: "2 * i + 2 \<le> length a" and lb: "2 * i + 2 \<le> length b"
        using * assms by auto
      show ?thesis
        using True *(2) k nth_unflat_storeu [OF *(2) n, of i]
          lane_loadu_flat [OF n _ _ la, of j] lane_loadu_flat [OF n _ _ lb, of j]
        by (simp add: vstep_def g_def cplx_map2_def lane_sub_epi32)
    next
      case False
      then show ?thesis
        using *(2) nth_unflat_storeu [OF *(2) n, of i] by (auto simp: vstep_def)
    qed
  qed (use assms in \<open>simp_all add: vstep_def\<close>)
  also have "map g [0..<nat len] = map2 (cplx_map2 (-)) (take (nat len) a) (take (nat len) b)"
    unfolding g_def using assms(3,4) by (rule map_nth_zip)
  finally show ?thesis .
qed

section \<open>Shifts\<close>

text \<open>
  For \<open>0 \<le> shift < 32\<close>, the four left shifts and the right shifts of \<^verbatim>\<open>int16\<close> and
  \<^verbatim>\<open>int32\<close> buffers are the scalar shift of every element: zeros shifted in from the
  right, the sign bit shifted in from the left.
\<close>

lemma ext_v_shift_right_int16_correct:
  assumes "0 \<le> len" "nat len \<le> length z" "nat len \<le> length x" "0 \<le> shift" "shift < 32"
  shows "fst (ext_v_shift_right_int16 z unused_3 x len shift)
           = map (signed_drop_bit (nat shift)) (take (nat len) x) @ drop (nat len) z"
proof -
  define g where "g = (\<lambda>j. signed_drop_bit (nat shift) (x ! j))"
  define vstep where "vstep = (\<lambda>i (z :: int16 list). mm_storeu_si128 z (8 * i)
      (mm_srai_epi16 (mm_loadu_si128 x (8 * i)) shift))"
  have "fst (ext_v_shift_right_int16 z unused_3 x len shift)
      = for_loop (c_div len (int 8) * int 8) len (\<lambda>i z. z[nat i := g (nat i)])
          (for_loop 0 (c_div len (int 8)) (\<lambda>i. vstep (nat i)) z)"
    by (simp add: ext_v_shift_right_int16_def Let_def c_shr_int_def sar_via_int16 g_def vstep_def)
  also have "\<dots> = map g [0..<nat len] @ drop (nat len) z"
  proof (rule vec_then_scalar)
    fix i j and z :: "int16 list"
    assume "8 * i + 8 \<le> nat len" "j < length z"
    then show "vstep i z ! j = (if 8 * i \<le> j \<and> j < 8 * i + 8 then g j else z ! j)"
      using assms(3-5)
      by (auto simp: vstep_def g_def nth_storeu_si128 lane_srai_epi16 lane_loadu_si128
          shift_count_in_range)
  qed (use assms in \<open>simp_all add: vstep_def\<close>)
  also have "map g [0..<nat len] = map (signed_drop_bit (nat shift)) (take (nat len) x)"
    unfolding g_def using assms(3) by (rule map_nth_take)
  finally show ?thesis .
qed

lemma ext_v_shift_right_int32_correct:
  assumes "0 \<le> len" "nat len \<le> length z" "nat len \<le> length x" "0 \<le> shift" "shift < 32"
  shows "fst (ext_v_shift_right_int32 z unused_3 x len shift)
           = map (signed_drop_bit (nat shift)) (take (nat len) x) @ drop (nat len) z"
proof -
  define g where "g = (\<lambda>j. signed_drop_bit (nat shift) (x ! j))"
  define vstep where "vstep = (\<lambda>i (z :: int32 list). mm_storeu_si128 z (4 * i)
      (mm_srai_epi32 (mm_loadu_si128 x (4 * i)) shift))"
  have "fst (ext_v_shift_right_int32 z unused_3 x len shift)
      = for_loop (c_div len (int 4) * int 4) len (\<lambda>i z. z[nat i := g (nat i)])
          (for_loop 0 (c_div len (int 4)) (\<lambda>i. vstep (nat i)) z)"
    by (simp add: ext_v_shift_right_int32_def Let_def c_shr_int_def g_def vstep_def)
  also have "\<dots> = map g [0..<nat len] @ drop (nat len) z"
  proof (rule vec_then_scalar)
    fix i j and z :: "int32 list"
    assume "4 * i + 4 \<le> nat len" "j < length z"
    then show "vstep i z ! j = (if 4 * i \<le> j \<and> j < 4 * i + 4 then g j else z ! j)"
      using assms(3-5)
      by (auto simp: vstep_def g_def nth_storeu_si128 lane_srai_epi32 lane_loadu_si128
          shift_count_in_range)
  qed (use assms in \<open>simp_all add: vstep_def\<close>)
  also have "map g [0..<nat len] = map (signed_drop_bit (nat shift)) (take (nat len) x)"
    unfolding g_def using assms(3) by (rule map_nth_take)
  finally show ?thesis .
qed

lemma ext_v_shift_left_int16_correct:
  assumes "0 \<le> len" "nat len \<le> length z" "nat len \<le> length x" "0 \<le> shift" "shift < 32"
  shows "fst (ext_v_shift_left_int16 z unused_3 x len shift)
           = map (push_bit (nat shift)) (take (nat len) x) @ drop (nat len) z"
proof -
  define g where "g = (\<lambda>j. push_bit (nat shift) (x ! j))"
  define vstep where "vstep = (\<lambda>i (z :: int16 list). mm_storeu_si128 z (8 * i)
      (mm_slli_epi16 (mm_loadu_si128 x (8 * i)) shift))"
  have "fst (ext_v_shift_left_int16 z unused_3 x len shift)
      = for_loop (c_div len (int 8) * int 8) len (\<lambda>i z. z[nat i := g (nat i)])
          (for_loop 0 (c_div len (int 8)) (\<lambda>i. vstep (nat i)) z)"
    by (simp add: ext_v_shift_left_int16_def Let_def c_shl_int_def shl_via_int16 g_def vstep_def)
  also have "\<dots> = map g [0..<nat len] @ drop (nat len) z"
  proof (rule vec_then_scalar)
    fix i j and z :: "int16 list"
    assume "8 * i + 8 \<le> nat len" "j < length z"
    then show "vstep i z ! j = (if 8 * i \<le> j \<and> j < 8 * i + 8 then g j else z ! j)"
      using assms(3-5)
      by (auto simp: vstep_def g_def nth_storeu_si128 lane_slli_epi16 lane_loadu_si128
          shift_count_in_range)
  qed (use assms in \<open>simp_all add: vstep_def\<close>)
  also have "map g [0..<nat len] = map (push_bit (nat shift)) (take (nat len) x)"
    unfolding g_def using assms(3) by (rule map_nth_take)
  finally show ?thesis .
qed

lemma ext_v_shift_left_int32_correct:
  assumes "0 \<le> len" "nat len \<le> length z" "nat len \<le> length x" "0 \<le> shift" "shift < 32"
  shows "fst (ext_v_shift_left_int32 z unused_3 x len shift)
           = map (push_bit (nat shift)) (take (nat len) x) @ drop (nat len) z"
proof -
  define g where "g = (\<lambda>j. push_bit (nat shift) (x ! j))"
  define vstep where "vstep = (\<lambda>i (z :: int32 list). mm_storeu_si128 z (4 * i)
      (mm_slli_epi32 (mm_loadu_si128 x (4 * i)) shift))"
  have "fst (ext_v_shift_left_int32 z unused_3 x len shift)
      = for_loop (c_div len (int 4) * int 4) len (\<lambda>i z. z[nat i := g (nat i)])
          (for_loop 0 (c_div len (int 4)) (\<lambda>i. vstep (nat i)) z)"
    by (simp add: ext_v_shift_left_int32_def Let_def c_shl_int_def g_def vstep_def)
  also have "\<dots> = map g [0..<nat len] @ drop (nat len) z"
  proof (rule vec_then_scalar)
    fix i j and z :: "int32 list"
    assume "4 * i + 4 \<le> nat len" "j < length z"
    then show "vstep i z ! j = (if 4 * i \<le> j \<and> j < 4 * i + 4 then g j else z ! j)"
      using assms(3-5)
      by (auto simp: vstep_def g_def nth_storeu_si128 lane_slli_epi32 lane_loadu_si128
          shift_count_in_range)
  qed (use assms in \<open>simp_all add: vstep_def\<close>)
  also have "map g [0..<nat len] = map (push_bit (nat shift)) (take (nat len) x)"
    unfolding g_def using assms(3) by (rule map_nth_take)
  finally show ?thesis .
qed

lemma ext_v_shift_left_complex16_correct:
  assumes "0 \<le> len" "nat len \<le> length z" "nat len \<le> length x" "0 \<le> shift" "shift < 32"
  shows "fst (ext_v_shift_left_complex16 z unused_3 x len shift)
           = map (cplx_map (push_bit (nat shift))) (take (nat len) x) @ drop (nat len) z"
proof -
  define g where "g = (\<lambda>j. cplx_map (push_bit (nat shift)) (x ! j))"
  define h where "h = (\<lambda>k. push_bit (nat shift) (flat x ! k))"
  define vstep where "vstep = (\<lambda>i (z :: complex16 list). unflat (mm_storeu_si128 (flat z) (8 * i)
      (mm_slli_epi16 (mm_loadu_si128 (flat x) (8 * i)) shift)))"
  have "fst (ext_v_shift_left_complex16 z unused_3 x len shift)
      = for_loop (c_div len (int 4) * int 4 * 2) (len * 2)
          (\<lambda>i z. unflat ((flat z)[nat i := h (nat i)]))
          (for_loop 0 (c_div len (int 4)) (\<lambda>i. vstep (nat i)) z)"
    by (simp add: ext_v_shift_left_complex16_def Let_def c_shl_int_def shl_via_uint16 h_def vstep_def)
  also have "\<dots> = map (\<lambda>j. if j < 4 * (nat len div 4) then g j else \<lparr>re = h (2 * j), im = h (2 * j + 1)\<rparr>)
               [0..<nat len] @ drop (nat len) z"
  proof (rule vec_then_flat_scalar)
    fix i j and z :: "complex16 list"
    assume *: "4 * i + 4 \<le> nat len" "j < length z"
    have n: "128 div LENGTH(16) = 2 * 4" by simp
    show "vstep i z ! j = (if 4 * i \<le> j \<and> j < 4 * i + 4 then g j else z ! j)"
    proof (cases "4 * i \<le> j \<and> j < 4 * i + 4")
      case True
      then have k: "2 * (j - 4 * i) < 8" "2 * (j - 4 * i) + 1 < 8" by auto
      have lx: "4 * i + 4 \<le> length x"
        using * assms by auto
      show ?thesis
        using True *(2) k nth_unflat_storeu [OF *(2) n, of i] assms(4,5)
          lane_loadu_flat [OF n _ _ lx, of j]
        by (simp add: vstep_def g_def cplx_map_def lane_slli_epi16 shift_count_in_range)
    next
      case False
      then show ?thesis
        using *(2) nth_unflat_storeu [OF *(2) n, of i] by (auto simp: vstep_def)
    qed
  qed (use assms in \<open>simp_all add: vstep_def\<close>)
  also have "map (\<lambda>j. if j < 4 * (nat len div 4) then g j else \<lparr>re = h (2 * j), im = h (2 * j + 1)\<rparr>)
               [0..<nat len]
           = map (\<lambda>j. cplx_map (push_bit (nat shift)) (x ! j)) [0..<nat len]"
    using assms(3) by (intro map_cong) (auto simp: g_def h_def cplx_map_def)
  also have "\<dots> = map (cplx_map (push_bit (nat shift))) (take (nat len) x)"
    using assms(3) by (rule map_nth_take)
  finally show ?thesis .
qed

lemma ext_v_shift_left_complex32_correct:
  assumes "0 \<le> len" "nat len \<le> length z" "nat len \<le> length x" "0 \<le> shift" "shift < 32"
  shows "fst (ext_v_shift_left_complex32 z unused_3 x len shift)
           = map (cplx_map (push_bit (nat shift))) (take (nat len) x) @ drop (nat len) z"
proof -
  define g where "g = (\<lambda>j. cplx_map (push_bit (nat shift)) (x ! j))"
  define h where "h = (\<lambda>k. push_bit (nat shift) (flat x ! k))"
  define vstep where "vstep = (\<lambda>i (z :: complex32 list). unflat (mm_storeu_si128 (flat z) (4 * i)
      (mm_slli_epi32 (mm_loadu_si128 (flat x) (4 * i)) shift)))"
  have "fst (ext_v_shift_left_complex32 z unused_3 x len shift)
      = for_loop (c_div len (int 2) * int 2 * 2) (len * 2)
          (\<lambda>i z. unflat ((flat z)[nat i := h (nat i)]))
          (for_loop 0 (c_div len (int 2)) (\<lambda>i. vstep (nat i)) z)"
    by (simp add: ext_v_shift_left_complex32_def Let_def c_shl_int_def h_def vstep_def)
  also have "\<dots> = map (\<lambda>j. if j < 2 * (nat len div 2) then g j else \<lparr>re = h (2 * j), im = h (2 * j + 1)\<rparr>)
               [0..<nat len] @ drop (nat len) z"
  proof (rule vec_then_flat_scalar)
    fix i j and z :: "complex32 list"
    assume *: "2 * i + 2 \<le> nat len" "j < length z"
    have n: "128 div LENGTH(32) = 2 * 2" by simp
    show "vstep i z ! j = (if 2 * i \<le> j \<and> j < 2 * i + 2 then g j else z ! j)"
    proof (cases "2 * i \<le> j \<and> j < 2 * i + 2")
      case True
      then have k: "2 * (j - 2 * i) < 4" "2 * (j - 2 * i) + 1 < 4" by auto
      have lx: "2 * i + 2 \<le> length x"
        using * assms by auto
      show ?thesis
        using True *(2) k nth_unflat_storeu [OF *(2) n, of i] assms(4,5)
          lane_loadu_flat [OF n _ _ lx, of j]
        by (simp add: vstep_def g_def cplx_map_def lane_slli_epi32 shift_count_in_range)
    next
      case False
      then show ?thesis
        using *(2) nth_unflat_storeu [OF *(2) n, of i] by (auto simp: vstep_def)
    qed
  qed (use assms in \<open>simp_all add: vstep_def\<close>)
  also have "map (\<lambda>j. if j < 2 * (nat len div 2) then g j else \<lparr>re = h (2 * j), im = h (2 * j + 1)\<rparr>)
               [0..<nat len]
           = map (\<lambda>j. cplx_map (push_bit (nat shift)) (x ! j)) [0..<nat len]"
    using assms(3) by (intro map_cong) (auto simp: g_def h_def cplx_map_def)
  also have "\<dots> = map (cplx_map (push_bit (nat shift))) (take (nat len) x)"
    using assms(3) by (rule map_nth_take)
  finally show ?thesis .
qed

text \<open>
  The right shifts of complex buffers shift the sign bit into the elements of the vector
  loop, the first \<open>wlen * (len div wlen)\<close>, and zeros into the elements of the remainder
  loop.
\<close>

lemma ext_v_shift_right_complex16_exact:
  assumes "0 \<le> len" "nat len \<le> length z" "nat len \<le> length x" "0 \<le> shift" "shift < 32"
  shows "fst (ext_v_shift_right_complex16 z unused_3 x len shift)
           = map (\<lambda>j. if j < 4 * (nat len div 4) then cplx_map (signed_drop_bit (nat shift)) (x ! j)
                    else cplx_map (drop_bit (nat shift)) (x ! j)) [0..<nat len] @ drop (nat len) z"
proof -
  define g where "g = (\<lambda>j. cplx_map (signed_drop_bit (nat shift)) (x ! j))"
  define h where "h = (\<lambda>k. drop_bit (nat shift) (flat x ! k))"
  define vstep where "vstep = (\<lambda>i (z :: complex16 list). unflat (mm_storeu_si128 (flat z) (8 * i)
      (mm_srai_epi16 (mm_loadu_si128 (flat x) (8 * i)) shift)))"
  have "fst (ext_v_shift_right_complex16 z unused_3 x len shift)
      = for_loop (c_div len (int 4) * int 4 * 2) (len * 2)
          (\<lambda>i z. unflat ((flat z)[nat i := h (nat i)]))
          (for_loop 0 (c_div len (int 4)) (\<lambda>i. vstep (nat i)) z)"
    by (simp add: ext_v_shift_right_complex16_def Let_def c_shr_int_def shr_via_uint16 h_def vstep_def)
  also have "\<dots> = map (\<lambda>j. if j < 4 * (nat len div 4) then g j else \<lparr>re = h (2 * j), im = h (2 * j + 1)\<rparr>)
               [0..<nat len] @ drop (nat len) z"
  proof (rule vec_then_flat_scalar)
    fix i j and z :: "complex16 list"
    assume *: "4 * i + 4 \<le> nat len" "j < length z"
    have n: "128 div LENGTH(16) = 2 * 4" by simp
    show "vstep i z ! j = (if 4 * i \<le> j \<and> j < 4 * i + 4 then g j else z ! j)"
    proof (cases "4 * i \<le> j \<and> j < 4 * i + 4")
      case True
      then have k: "2 * (j - 4 * i) < 8" "2 * (j - 4 * i) + 1 < 8" by auto
      have lx: "4 * i + 4 \<le> length x"
        using * assms by auto
      show ?thesis
        using True *(2) k nth_unflat_storeu [OF *(2) n, of i] assms(4,5)
          lane_loadu_flat [OF n _ _ lx, of j]
        by (simp add: vstep_def g_def cplx_map_def lane_srai_epi16 shift_count_in_range)
    next
      case False
      then show ?thesis
        using *(2) nth_unflat_storeu [OF *(2) n, of i] by (auto simp: vstep_def)
    qed
  qed (use assms in \<open>simp_all add: vstep_def\<close>)
  also have "map (\<lambda>j. if j < 4 * (nat len div 4) then g j else \<lparr>re = h (2 * j), im = h (2 * j + 1)\<rparr>)
               [0..<nat len]
           = map (\<lambda>j. if j < 4 * (nat len div 4) then cplx_map (signed_drop_bit (nat shift)) (x ! j)
                    else cplx_map (drop_bit (nat shift)) (x ! j)) [0..<nat len]"
    using assms(3) by (intro map_cong) (auto simp: g_def h_def cplx_map_def)
  finally show ?thesis .
qed

lemma ext_v_shift_right_complex32_exact:
  assumes "0 \<le> len" "nat len \<le> length z" "nat len \<le> length x" "0 \<le> shift" "shift < 32"
  shows "fst (ext_v_shift_right_complex32 z unused_3 x len shift)
           = map (\<lambda>j. if j < 2 * (nat len div 2) then cplx_map (signed_drop_bit (nat shift)) (x ! j)
                    else cplx_map (drop_bit (nat shift)) (x ! j)) [0..<nat len] @ drop (nat len) z"
proof -
  define g where "g = (\<lambda>j. cplx_map (signed_drop_bit (nat shift)) (x ! j))"
  define h where "h = (\<lambda>k. drop_bit (nat shift) (flat x ! k))"
  define vstep where "vstep = (\<lambda>i (z :: complex32 list). unflat (mm_storeu_si128 (flat z) (4 * i)
      (mm_srai_epi32 (mm_loadu_si128 (flat x) (4 * i)) shift)))"
  have "fst (ext_v_shift_right_complex32 z unused_3 x len shift)
      = for_loop (c_div len (int 2) * int 2 * 2) (len * 2)
          (\<lambda>i z. unflat ((flat z)[nat i := h (nat i)]))
          (for_loop 0 (c_div len (int 2)) (\<lambda>i. vstep (nat i)) z)"
    by (simp add: ext_v_shift_right_complex32_def Let_def c_shr_uint_def h_def vstep_def)
  also have "\<dots> = map (\<lambda>j. if j < 2 * (nat len div 2) then g j else \<lparr>re = h (2 * j), im = h (2 * j + 1)\<rparr>)
               [0..<nat len] @ drop (nat len) z"
  proof (rule vec_then_flat_scalar)
    fix i j and z :: "complex32 list"
    assume *: "2 * i + 2 \<le> nat len" "j < length z"
    have n: "128 div LENGTH(32) = 2 * 2" by simp
    show "vstep i z ! j = (if 2 * i \<le> j \<and> j < 2 * i + 2 then g j else z ! j)"
    proof (cases "2 * i \<le> j \<and> j < 2 * i + 2")
      case True
      then have k: "2 * (j - 2 * i) < 4" "2 * (j - 2 * i) + 1 < 4" by auto
      have lx: "2 * i + 2 \<le> length x"
        using * assms by auto
      show ?thesis
        using True *(2) k nth_unflat_storeu [OF *(2) n, of i] assms(4,5)
          lane_loadu_flat [OF n _ _ lx, of j]
        by (simp add: vstep_def g_def cplx_map_def lane_srai_epi32 shift_count_in_range)
    next
      case False
      then show ?thesis
        using *(2) nth_unflat_storeu [OF *(2) n, of i] by (auto simp: vstep_def)
    qed
  qed (use assms in \<open>simp_all add: vstep_def\<close>)
  also have "map (\<lambda>j. if j < 2 * (nat len div 2) then g j else \<lparr>re = h (2 * j), im = h (2 * j + 1)\<rparr>)
               [0..<nat len]
           = map (\<lambda>j. if j < 2 * (nat len div 2) then cplx_map (signed_drop_bit (nat shift)) (x ! j)
                    else cplx_map (drop_bit (nat shift)) (x ! j)) [0..<nat len]"
    using assms(3) by (intro map_cong) (auto simp: g_def h_def cplx_map_def)
  finally show ?thesis .
qed

text \<open>
  C4 claims that \<^verbatim>\<open>shiftRight\<close> shifts every component arithmetically, whatever the
  length. The remainder loops of the two complex kernels read the components as
  unsigned: with one element \<open>(-2, -4)\<close> and a shift of one bit, where the arithmetic
  shift gives \<open>(-1, -2)\<close>, the 16-bit kernel writes \<open>(32767, 32766)\<close> and the 32-bit
  kernel \<open>(2147483647, 2147483646)\<close>.
\<close>

theorem shift_right_complex_remainder_is_logical:
  "ext_v_shift_right_complex16 [\<lparr>re = 0, im = 0\<rparr>] 1 [\<lparr>re = - 2, im = - 4\<rparr>] 1 1
     = ([\<lparr>re = 32767, im = 32766\<rparr>], 0)
   \<and> ext_v_shift_right_complex32 [\<lparr>re = 0, im = 0\<rparr>] 1 [\<lparr>re = - 2, im = - 4\<rparr>] 1 1
     = ([\<lparr>re = 2147483647, im = 2147483646\<rparr>], 0)
   \<and> signed_drop_bit 1 (- 2 :: int16) = - 1 \<and> signed_drop_bit 1 (- 4 :: int16) = - 2"
  by code_simp

text \<open>
  C1 claims that the vector loop and the remainder loop of every kernel together equal
  one scalar reference applied to all elements. On five equal elements \<open>(-2, -4)\<close> and
  a shift of one bit, \<^verbatim>\<open>__ext_v_shift_right_complex16\<close> writes \<open>(-1, -2)\<close> to the four
  elements of the vector loop and \<open>(32767, 32766)\<close> to the fifth, which the remainder
  loop handles; the scalar reference gives \<open>(-1, -2)\<close> five times.
\<close>

theorem shift_right_complex16_paths_disagree:
  "fst (ext_v_shift_right_complex16 (replicate 5 \<lparr>re = 0, im = 0\<rparr>) 5
          (replicate 5 \<lparr>re = - 2, im = - 4\<rparr>) 5 1)
     = [\<lparr>re = - 1, im = - 2\<rparr>, \<lparr>re = - 1, im = - 2\<rparr>, \<lparr>re = - 1, im = - 2\<rparr>,
        \<lparr>re = - 1, im = - 2\<rparr>, \<lparr>re = 32767, im = 32766\<rparr>]
   \<and> ref_shift_right_complex16 (replicate 5 \<lparr>re = - 2, im = - 4\<rparr>) 5 1
     = replicate 5 \<lparr>re = - 1, im = - 2\<rparr>"
  by code_simp

section \<open>Complex multiplication\<close>

text \<open>
  The vector loops work on 32-bit lanes holding one complex number each, the real part in
  the low half. The lemmas below read the 16-bit lanes of every intermediate value.
\<close>

lemma bit_lane:
  "bit (lane k v :: 'a::len word) n \<longleftrightarrow> n < LENGTH('a) \<and> bit v (k * LENGTH('a) + n)"
  by (simp add: lane_def bit_ucast_iff bit_drop_bit_eq)

lemma lane_of_lane:
  fixes v :: m128i
  assumes "b < 2"
  shows "(lane (2 * k + b) v :: int16) = lane b (lane k v :: int32)"
proof (rule bit_word_eqI)
  fix n assume "n < LENGTH(16)"
  then have n: "n < 16" by simp
  have lt: "b * 16 + n < 32" using assms n by simp
  have e: "(2 * k + b) * 16 + n = k * 32 + (b * 16 + n)" by simp
  have "bit (lane (2 * k + b) v :: int16) n = bit v ((2 * k + b) * 16 + n)"
    using n by (simp add: bit_lane [where 'a = 16])
  moreover have "bit (lane b (lane k v :: int32) :: int16) n = bit (lane k v :: int32) (b * 16 + n)"
    using n by (simp add: bit_lane [where 'a = 16])
  moreover have "bit (lane k v :: int32) (b * 16 + n) = bit v (k * 32 + (b * 16 + n))"
    using lt bit_lane [where 'a = 32, of k v "b * 16 + n"] by simp
  ultimately show "bit (lane (2 * k + b) v :: int16) n = bit (lane b (lane k v :: int32) :: int16) n"
    by (simp only: e)
qed

lemma uint_drop_bit_16:
  "uint (drop_bit 16 (x :: int32)) = uint x div 65536"
proof -
  have "uint (drop_bit 16 x) = drop_bit 16 (take_bit LENGTH(32) (uint x))"
    by (rule unsigned_drop_bit_eq)
  also have "take_bit LENGTH(32) (uint x) = uint x"
    by (simp add: take_bit_int_eq_self_iff uint_lt2p [of x, simplified])
  also have "drop_bit 16 (uint x) = uint x div 65536"
    by (simp add: drop_bit_eq_div)
  finally show ?thesis .
qed

lemma lane_xor: "lane k (a XOR b) = lane k a XOR lane k b"
  by (rule bit_word_eqI) (auto simp: lane_def bit_ucast_iff bit_drop_bit_eq bit_xor_iff)

lemma lane_and: "lane k (a AND b) = lane k a AND lane k b"
  by (rule bit_word_eqI) (auto simp: lane_def bit_ucast_iff bit_drop_bit_eq bit_and_iff)

lemma lane_set1_epi32: "k < 4 \<Longrightarrow> (lane k (mm_set1_epi32 c) :: int32) = c"
  by (simp add: mm_set1_epi32_def lane_of_lanes)

lemma hi_mask_eq: "(0xFFFF0000 :: int32) = NOT (mask 16)"
  by (simp add: mask_eq_exp_minus_1)

lemma lo_mask_eq: "(0x0000FFFF :: int32) = mask 16"
  by (simp add: mask_eq_exp_minus_1)

lemma lane0_32: "(lane 0 (w :: int32) :: int16) = ucast w"
  by (simp add: lane_def)

lemma lane1_32: "(lane 1 (w :: int32) :: int16) = ucast (drop_bit 16 w)"
  by (simp add: lane_def)

lemma low_half_neg_hi:
  "(ucast ((w XOR 0xFFFF0000) + 0x00010000 :: int32) :: int16) = ucast w"
proof -
  have "(ucast ((w XOR 0xFFFF0000) + 0x00010000 :: int32) :: int16)
      = ucast (w XOR NOT (mask 16)) + ucast (0x00010000 :: int32)"
    by (simp only: ucast_down_add hi_mask_eq)
  also have "(ucast (0x00010000 :: int32) :: int16) = 0"
    by simp
  also have "(ucast (w XOR NOT (mask 16)) :: int16) = ucast w"
    by (rule bit_word_eqI) (auto simp: bit_ucast_iff bit_xor_iff bit_not_iff bit_mask_iff)
  finally show ?thesis by simp
qed

lemma high_half_add:
  "(ucast (drop_bit 16 (v + 0x00010000 :: int32)) :: int16) = ucast (drop_bit 16 v) + 1"
proof -
  have u: "0 \<le> uint v" "uint v < 4294967296"
    using uint_lt2p [of v] by simp_all
  have "uint (v + 0x00010000) = (uint v + 65536) mod 4294967296"
    by (simp add: uint_word_ariths)
  then have "uint (drop_bit 16 (v + 0x00010000)) = ((uint v + 65536) mod 4294967296) div 65536"
    by (simp only: uint_drop_bit_16)
  then have l: "(ucast (drop_bit 16 (v + 0x00010000 :: int32)) :: int16)
      = word_of_int (((uint v + 65536) mod 4294967296) div 65536)"
    by (simp add: ucast_eq)
  have "uint (drop_bit 16 v) = uint v div 65536"
    by (rule uint_drop_bit_16)
  then have r: "(ucast (drop_bit 16 v) + 1 :: int16) = word_of_int (uint v div 65536 + 1)"
    by (simp add: ucast_eq)
  have m: "(((uint v + 65536) mod 4294967296) div 65536) mod 65536 = (uint v div 65536 + 1) mod 65536"
  proof (cases "uint v + 65536 < 4294967296")
    case True
    then have "(uint v + 65536) mod 4294967296 = uint v + 65536"
      using u by simp
    then show ?thesis by simp
  next
    case False
    define t where "t = uint v + 65536 - 4294967296"
    have t: "0 \<le> t" "t < 4294967296" "uint v + 65536 = t + 4294967296"
      using False u by (simp_all add: t_def)
    have "(uint v + 65536) mod 4294967296 = t"
      using t by simp
    moreover have "uint v div 65536 + 1 = (uint v + 65536) div 65536"
      by simp
    moreover have "(t + 4294967296) div 65536 = t div 65536 + 65536"
      using div_mult_self2 [of 65536 t 65536] by simp
    moreover have "(t div 65536 + 65536) mod 65536 = (t div 65536) mod 65536"
      by simp
    ultimately show ?thesis
      by (simp only: t(3))
  qed
  have "take_bit LENGTH(16) (((uint v + 65536) mod 4294967296) div 65536)
      = take_bit LENGTH(16) (uint v div 65536 + 1)"
    unfolding take_bit_eq_mod using m by simp
  then have "(word_of_int (((uint v + 65536) mod 4294967296) div 65536) :: int16)
      = word_of_int (uint v div 65536 + 1)"
    by (simp only: word_of_int_eq_iff)
  then show ?thesis
    by (simp only: l r)
qed

lemma high_half_neg_hi:
  "(ucast (drop_bit 16 ((w XOR 0xFFFF0000) + 0x00010000 :: int32)) :: int16) = - ucast (drop_bit 16 w)"
proof -
  have "(ucast (drop_bit 16 (w XOR NOT (mask 16))) :: int16) = NOT (ucast (drop_bit 16 w))"
    by (rule bit_word_eqI)
      (auto simp: bit_ucast_iff bit_drop_bit_eq bit_xor_iff bit_not_iff bit_mask_iff)
  then have "(ucast (drop_bit 16 ((w XOR 0xFFFF0000) + 0x00010000 :: int32)) :: int16)
      = NOT (ucast (drop_bit 16 w)) + 1"
    by (simp only: high_half_add hi_mask_eq)
  then show ?thesis
    by (simp add: minus_eq_not_plus_1)
qed

lemma pack_low: "(ucast ((p AND 0x0000FFFF) OR push_bit 16 (q AND 0x0000FFFF) :: int32) :: int16) = ucast p"
  unfolding lo_mask_eq
  by (rule bit_word_eqI) (auto simp: bit_ucast_iff bit_or_iff bit_and_iff bit_mask_iff bit_push_bit_iff)

lemma pack_high:
  "(ucast (drop_bit 16 ((p AND 0x0000FFFF) OR push_bit 16 (q AND 0x0000FFFF) :: int32)) :: int16) = ucast q"
  unfolding lo_mask_eq
  by (rule bit_word_eqI)
    (auto simp: bit_ucast_iff bit_or_iff bit_and_iff bit_mask_iff bit_push_bit_iff bit_drop_bit_eq)

lemma MM_SHUFFLE_swap: "MM_SHUFFLE 2 3 0 1 = 177"
  by (simp add: MM_SHUFFLE_def)

lemma shuffle_sel_less: "shuffle_sel imm k < 4"
  by (simp add: shuffle_sel_def)

lemma lane_shufflehi_epi16:
  assumes "j < 8"
  shows "(lane j (mm_shufflehi_epi16 v imm) :: int16)
     = (if j < 4 then lane j v else lane (4 + shuffle_sel imm (j - 4)) v)"
proof (cases "j < 4")
  case True
  then show ?thesis
    using assms by (simp add: mm_shufflehi_epi16_def epi16_def Let_def lane_of_lanes nth_append)
next
  case False
  have s: "4 + shuffle_sel imm k < 8" for k
    using shuffle_sel_less [of imm k] by simp
  have l: "map (\<lambda>k. lanes 8 v ! (4 + shuffle_sel imm k)) [0..<4] ! (j - 4)
      = lanes 8 v ! (4 + shuffle_sel imm (j - 4))"
    using assms False by (subst nth_map_upt) simp_all
  have "(lane j (mm_shufflehi_epi16 v imm) :: int16)
      = (take 4 (lanes 8 v) @ map (\<lambda>k. lanes 8 v ! (4 + shuffle_sel imm k)) [0..<4]) ! j"
    using assms by (simp add: mm_shufflehi_epi16_def epi16_def Let_def lane_of_lanes)
  also have "\<dots> = map (\<lambda>k. lanes 8 v ! (4 + shuffle_sel imm k)) [0..<4] ! (j - 4)"
    using False by (simp only: nth_append length_take lanes_length min.idem) simp
  also have "\<dots> = lane (4 + shuffle_sel imm (j - 4)) v"
    unfolding l using s by simp
  finally show ?thesis
    using False by simp
qed

lemma lane_shufflelo_epi16:
  assumes "j < 8"
  shows "(lane j (mm_shufflelo_epi16 v imm) :: int16)
     = (if j < 4 then lane (shuffle_sel imm j) v else lane j v)"
proof -
  have s: "shuffle_sel imm j < 8"
    using shuffle_sel_less [of imm j] by simp
  have u: "j < 4 \<Longrightarrow> [0..<4] ! j = j"
    using nth_upt [of 0 j 4] by simp
  show ?thesis
    using assms s u by (simp add: mm_shufflelo_epi16_def epi16_def Let_def lane_of_lanes nth_append)
qed

lemma lane_swap_pairs:
  assumes "k < 4"
  shows "(lane (2 * k) (mm_shufflelo_epi16 (mm_shufflehi_epi16 v (MM_SHUFFLE 2 3 0 1))
            (MM_SHUFFLE 2 3 0 1)) :: int16) = lane (2 * k + 1) v"
    and "(lane (2 * k + 1) (mm_shufflelo_epi16 (mm_shufflehi_epi16 v (MM_SHUFFLE 2 3 0 1))
            (MM_SHUFFLE 2 3 0 1)) :: int16) = lane (2 * k) v"
proof -
  have k: "k = 0 \<or> k = 1 \<or> k = 2 \<or> k = 3" using assms by auto
  from k show "(lane (2 * k) (mm_shufflelo_epi16 (mm_shufflehi_epi16 v (MM_SHUFFLE 2 3 0 1))
            (MM_SHUFFLE 2 3 0 1)) :: int16) = lane (2 * k + 1) v"
    unfolding MM_SHUFFLE_swap
    by (auto simp: lane_shufflelo_epi16 lane_shufflehi_epi16 shuffle_sel_def)
  from k show "(lane (2 * k + 1) (mm_shufflelo_epi16 (mm_shufflehi_epi16 v (MM_SHUFFLE 2 3 0 1))
            (MM_SHUFFLE 2 3 0 1)) :: int16) = lane (2 * k) v"
    unfolding MM_SHUFFLE_swap
    by (auto simp: lane_shufflelo_epi16 lane_shufflehi_epi16 shuffle_sel_def)
qed

lemma lane_madd_epi16:
  "j < 4 \<Longrightarrow> (lane j (mm_madd_epi16 a b) :: int32)
     = madd_pair (lane (2 * j) a) (lane (2 * j + 1) a) (lane (2 * j) b) (lane (2 * j + 1) b)"
  by (simp add: mm_madd_epi16_def epi16_def Let_def lane_of_lanes)

lemma lane_negate_im:
  assumes "k < 4"
  shows "(lane (2 * k) (mm_add_epi32 (mm_xor_si128 v (mm_set1_epi32 0xFFFF0000))
            (mm_set1_epi32 0x00010000)) :: int16) = lane (2 * k) v"
    and "(lane (2 * k + 1) (mm_add_epi32 (mm_xor_si128 v (mm_set1_epi32 0xFFFF0000))
            (mm_set1_epi32 0x00010000)) :: int16) = - lane (2 * k + 1) v"
proof -
  let ?w = "mm_add_epi32 (mm_xor_si128 v (mm_set1_epi32 0xFFFF0000)) (mm_set1_epi32 0x00010000)"
  have w: "(lane k ?w :: int32) = ((lane k v :: int32) XOR 0xFFFF0000) + 0x00010000"
    using assms by (simp only: lane_add_epi32 mm_xor_si128_def lane_xor lane_set1_epi32)
  have "(lane (2 * k) ?w :: int16) = lane 0 (lane k ?w :: int32)"
    using lane_of_lane [of 0 k ?w] by simp
  also have "\<dots> = lane 0 (lane k v :: int32)"
    by (simp only: w lane0_32 low_half_neg_hi)
  also have "\<dots> = lane (2 * k) v"
    using lane_of_lane [of 0 k v] by simp
  finally show "(lane (2 * k) ?w :: int16) = lane (2 * k) v" .
  have "(lane (2 * k + 1) ?w :: int16) = lane 1 (lane k ?w :: int32)"
    using lane_of_lane [of 1 k ?w] by simp
  also have "\<dots> = - lane 1 (lane k v :: int32)"
    by (simp only: w lane1_32 high_half_neg_hi)
  also have "\<dots> = - lane (2 * k + 1) v"
    using lane_of_lane [of 1 k v] by simp
  finally show "(lane (2 * k + 1) ?w :: int16) = - lane (2 * k + 1) v" .
qed

lemma lane_pack_re_im:
  assumes "k < 4"
  shows "(lane (2 * k) (mm_or_si128 (mm_and_si128 p (mm_set1_epi32 0x0000FFFF))
            (mm_slli_epi32 (mm_and_si128 q (mm_set1_epi32 0x0000FFFF)) 0x10)) :: int16)
          = ucast (lane k p :: int32)"
    and "(lane (2 * k + 1) (mm_or_si128 (mm_and_si128 p (mm_set1_epi32 0x0000FFFF))
            (mm_slli_epi32 (mm_and_si128 q (mm_set1_epi32 0x0000FFFF)) 0x10)) :: int16)
          = ucast (lane k q :: int32)"
proof -
  let ?w = "mm_or_si128 (mm_and_si128 p (mm_set1_epi32 0x0000FFFF))
            (mm_slli_epi32 (mm_and_si128 q (mm_set1_epi32 0x0000FFFF)) 0x10)"
  have sc: "shift_count 0x10 = 16" by (simp add: shift_count_def)
  have w: "(lane k ?w :: int32)
      = ((lane k p :: int32) AND 0x0000FFFF) OR push_bit 16 ((lane k q :: int32) AND 0x0000FFFF)"
    using assms
    by (simp only: mm_or_si128_def mm_and_si128_def lane_or lane_and lane_slli_epi32
        lane_set1_epi32 sc)
  have "(lane (2 * k) ?w :: int16) = lane 0 (lane k ?w :: int32)"
    using lane_of_lane [of 0 k ?w] by simp
  also have "\<dots> = ucast (lane k p :: int32)"
    by (simp only: w lane0_32 pack_low)
  finally show "(lane (2 * k) ?w :: int16) = ucast (lane k p :: int32)" .
  have "(lane (2 * k + 1) ?w :: int16) = lane 1 (lane k ?w :: int32)"
    using lane_of_lane [of 1 k ?w] by simp
  also have "\<dots> = ucast (lane k q :: int32)"
    by (simp only: w lane1_32 pack_high)
  finally show "(lane (2 * k + 1) ?w :: int16) = ucast (lane k q :: int32)" .
qed

lemma scast_minus:
  assumes "a \<noteq> (- 32768 :: int16)"
  shows "(scast (- a) :: int32) = - scast a"
proof -
  have ne: "sint a \<noteq> - 32768"
  proof
    assume "sint a = - 32768"
    then have "word_of_int (sint a) = (word_of_int (- 32768) :: int16)" by simp
    then show False using assms by (simp only: word_of_int_sint) simp
  qed
  have b: "- 32768 \<le> sint a" "sint a < 32768"
    using sint_ge [of a] sint_lt [of a] by simp_all
  have "sint (- a) = signed_take_bit 15 (- sint a)"
    by (simp add: sint_word_ariths)
  also have "\<dots> = - sint a"
    using ne b by (simp add: signed_take_bit_int_eq_self)
  finally have "(scast (- a) :: int32) = word_of_int (- sint a)"
    by (simp only: scast_eq)
  also have "\<dots> = - scast a"
    by (simp only: scast_eq wi_hom_neg)
  finally show ?thesis .
qed

lemma vec_multiply_eq_spec:
  assumes "im x \<noteq> - 32768"
  shows "vec_multiply x y k = spec_multiply x y k"
  using assms
  by (simp add: vec_multiply_def spec_multiply_def madd_pair_def Let_def scast_minus algebra_simps)

lemma vec_conjugate_multiply_eq_spec:
  assumes "im y \<noteq> - 32768"
  shows "vec_conjugate_multiply x y k = spec_conjugate_multiply x y k"
  using assms
  by (simp add: vec_conjugate_multiply_def spec_conjugate_multiply_def madd_pair_def Let_def
      scast_minus algebra_simps)

lemma ext_v_mul_complex16_exact:
  assumes "0 \<le> len1" "nat len1 \<le> length out" "nat len1 \<le> length x" "nat len1 \<le> length y"
      and "0 \<le> shift" "shift < 32"
  shows "fst (ext_v_mul_complex16 out lenout x len1 y len2 shift)
           = map (\<lambda>j. if j < 4 * (nat len1 div 4) then vec_multiply (x ! j) (y ! j) shift
                    else spec_multiply (x ! j) (y ! j) shift) [0..<nat len1] @ drop (nat len1) out"
proof -
  define g where "g = (\<lambda>j. vec_multiply (x ! j) (y ! j) shift)"
  define h where "h = (\<lambda>j. spec_multiply (x ! j) (y ! j) shift)"
  define res where "res = (\<lambda>mx my.
      mm_or_si128
        (mm_and_si128 (mm_srai_epi32 (mm_madd_epi16
            (mm_add_epi32 (mm_xor_si128 mx (mm_set1_epi32 0xFFFF0000)) (mm_set1_epi32 0x00010000)) my)
            shift) (mm_set1_epi32 0x0000FFFF))
        (mm_slli_epi32 (mm_and_si128 (mm_srai_epi32 (mm_madd_epi16
            (mm_shufflelo_epi16 (mm_shufflehi_epi16 mx (MM_SHUFFLE 2 3 0 1)) (MM_SHUFFLE 2 3 0 1)) my)
            shift) (mm_set1_epi32 0x0000FFFF)) 0x10))"
  define vstep where "vstep = (\<lambda>i (out :: complex16 list).
      unflat (mm_storeu_si128 (flat out) (8 * i)
        (res (mm_loadu_si128 (flat x) (8 * i)) (mm_loadu_si128 (flat y) (8 * i)))))"
  have lanes_res: "(lane (2 * q) (res mx my) :: int16)
        = ucast (signed_drop_bit (nat shift)
            (madd_pair (lane (2 * q) mx) (- lane (2 * q + 1) mx) (lane (2 * q) my) (lane (2 * q + 1) my)))"
      "(lane (2 * q + 1) (res mx my) :: int16)
        = ucast (signed_drop_bit (nat shift)
            (madd_pair (lane (2 * q + 1) mx) (lane (2 * q) mx) (lane (2 * q) my) (lane (2 * q + 1) my)))"
    if "q < 4" for q mx my
    using that assms(5,6)
    by (simp_all only: res_def lane_pack_re_im lane_srai_epi32 lane_madd_epi16 lane_negate_im
        lane_swap_pairs shift_count_in_range [of shift, simplified])
  have "fst (ext_v_mul_complex16 out lenout x len1 y len2 shift)
      = for_loop (c_div len1 (int 4) * int 4) len1 (\<lambda>i c. c[nat i := h (nat i)])
          (for_loop 0 (c_div len1 (int 4)) (\<lambda>i. vstep (nat i)) out)"
    by (simp add: ext_v_mul_complex16_def Let_def c_shr_int_def h_def vstep_def res_def
        spec_multiply_def)
  also have "\<dots> = map (\<lambda>j. if j < 4 * (nat len1 div 4) then g j else h j) [0..<nat len1]
                 @ drop (nat len1) out"
  proof (rule vec_then_scalar2)
    fix i j and c :: "complex16 list"
    assume *: "4 * i + 4 \<le> nat len1" "j < length c"
    have n: "128 div LENGTH(16) = 2 * 4" by simp
    show "vstep i c ! j = (if 4 * i \<le> j \<and> j < 4 * i + 4 then g j else c ! j)"
    proof (cases "4 * i \<le> j \<and> j < 4 * i + 4")
      case True
      then have q: "j - 4 * i < 4" by auto
      have lx: "4 * i + 4 \<le> length x" and ly: "4 * i + 4 \<le> length y"
        using * assms by auto
      have ldx: "(lane (2 * (j - 4 * i)) (mm_loadu_si128 (flat x) (8 * i)) :: int16) = re (x ! j)"
          "(lane (2 * (j - 4 * i) + 1) (mm_loadu_si128 (flat x) (8 * i)) :: int16) = im (x ! j)"
        using lane_loadu_flat [OF n _ _ lx, of j] True by simp_all
      have ldy: "(lane (2 * (j - 4 * i)) (mm_loadu_si128 (flat y) (8 * i)) :: int16) = re (y ! j)"
          "(lane (2 * (j - 4 * i) + 1) (mm_loadu_si128 (flat y) (8 * i)) :: int16) = im (y ! j)"
        using lane_loadu_flat [OF n _ _ ly, of j] True by simp_all
      have "vstep i c ! j
          = \<lparr>re = lane (2 * (j - 4 * i)) (res (mm_loadu_si128 (flat x) (8 * i)) (mm_loadu_si128 (flat y) (8 * i))),
             im = lane (2 * (j - 4 * i) + 1) (res (mm_loadu_si128 (flat x) (8 * i)) (mm_loadu_si128 (flat y) (8 * i)))\<rparr>"
        using True nth_unflat_storeu [OF *(2) n, of i] by (simp add: vstep_def)
      also have "\<dots> = g j"
        by (simp only: lanes_res [OF q] ldx ldy g_def vec_multiply_def)
      finally show ?thesis using True by simp
    next
      case False
      then show ?thesis
        using *(2) nth_unflat_storeu [OF *(2) n, of i] by (auto simp: vstep_def)
    qed
  qed (use assms in \<open>simp_all add: vstep_def\<close>)
  finally show ?thesis by (simp only: g_def h_def)
qed

lemma vec_conjugate_multiply_int32_eq_spec:
  assumes "im y \<noteq> - 32768"
  shows "vec_conjugate_multiply_int32 x y = spec_conjugate_multiply_int32 x y"
  using assms
  by (simp add: vec_conjugate_multiply_int32_def spec_conjugate_multiply_int32_def madd_pair_def
      Let_def scast_minus algebra_simps)

lemma fst_vec_conjugate_multiply_int32:
  "fst (vec_conjugate_multiply_int32 x y) = fst (spec_conjugate_multiply_int32 x y)"
  by (simp add: vec_conjugate_multiply_int32_def spec_conjugate_multiply_int32_def madd_pair_def
      Let_def algebra_simps)

lemma re_vec_conjugate_multiply:
  "re (vec_conjugate_multiply x y k) = re (spec_conjugate_multiply x y k)"
  by (simp add: vec_conjugate_multiply_def spec_conjugate_multiply_def madd_pair_def
      Let_def algebra_simps)

lemma fold_pair:
  "fold (\<lambda>i (a, b). (F i a, G i b)) ks (a, b) = (fold F ks a, fold G ks b)"
  by (induction ks arbitrary: a b) simp_all

lemma for_loop_pair:
  "for_loop lo hi (\<lambda>i (a, b). (F i a, G i b)) (a, b) = (for_loop lo hi F a, for_loop lo hi G b)"
  by (simp add: for_loop_def fold_pair)

lemma ext_v_conj_mul_complex16_exact:
  assumes "0 \<le> len1" "nat len1 \<le> length out" "nat len1 \<le> length x" "nat len1 \<le> length y"
      and "0 \<le> shift" "shift < 32"
  shows "fst (ext_v_conj_mul_complex16 out lenout x len1 y len2 shift)
           = map (\<lambda>j. if j < 4 * (nat len1 div 4) then vec_conjugate_multiply (x ! j) (y ! j) shift
                    else spec_conjugate_multiply (x ! j) (y ! j) shift) [0..<nat len1]
             @ drop (nat len1) out"
proof -
  define g where "g = (\<lambda>j. vec_conjugate_multiply (x ! j) (y ! j) shift)"
  define h where "h = (\<lambda>j. spec_conjugate_multiply (x ! j) (y ! j) shift)"
  define res where "res = (\<lambda>mx my.
      mm_or_si128
        (mm_and_si128 (mm_srai_epi32 (mm_madd_epi16 my mx) shift) (mm_set1_epi32 0x0000FFFF))
        (mm_slli_epi32 (mm_and_si128 (mm_srai_epi32 (mm_madd_epi16
            (mm_shufflelo_epi16 (mm_shufflehi_epi16
               (mm_add_epi32 (mm_xor_si128 my (mm_set1_epi32 0xFFFF0000)) (mm_set1_epi32 0x00010000))
               (MM_SHUFFLE 2 3 0 1)) (MM_SHUFFLE 2 3 0 1)) mx)
            shift) (mm_set1_epi32 0x0000FFFF)) 0x10))"
  define vstep where "vstep = (\<lambda>i (out :: complex16 list).
      unflat (mm_storeu_si128 (flat out) (8 * i)
        (res (mm_loadu_si128 (flat x) (8 * i)) (mm_loadu_si128 (flat y) (8 * i)))))"
  have lanes_res: "(lane (2 * q) (res mx my) :: int16)
        = ucast (signed_drop_bit (nat shift)
            (madd_pair (lane (2 * q) my) (lane (2 * q + 1) my) (lane (2 * q) mx) (lane (2 * q + 1) mx)))"
      "(lane (2 * q + 1) (res mx my) :: int16)
        = ucast (signed_drop_bit (nat shift)
            (madd_pair (- lane (2 * q + 1) my) (lane (2 * q) my) (lane (2 * q) mx) (lane (2 * q + 1) mx)))"
    if "q < 4" for q mx my
    using that assms(5,6)
    by (simp_all only: res_def lane_pack_re_im lane_srai_epi32 lane_madd_epi16 lane_negate_im
        lane_swap_pairs shift_count_in_range [of shift, simplified])
  have "fst (ext_v_conj_mul_complex16 out lenout x len1 y len2 shift)
      = for_loop (c_div len1 (int 4) * int 4) len1 (\<lambda>i c. c[nat i := h (nat i)])
          (for_loop 0 (c_div len1 (int 4)) (\<lambda>i. vstep (nat i)) out)"
    by (simp add: ext_v_conj_mul_complex16_def Let_def c_shr_int_def h_def vstep_def res_def
        spec_conjugate_multiply_def)
  also have "\<dots> = map (\<lambda>j. if j < 4 * (nat len1 div 4) then g j else h j) [0..<nat len1]
                 @ drop (nat len1) out"
  proof (rule vec_then_scalar2)
    fix i j and c :: "complex16 list"
    assume *: "4 * i + 4 \<le> nat len1" "j < length c"
    have n: "128 div LENGTH(16) = 2 * 4" by simp
    show "vstep i c ! j = (if 4 * i \<le> j \<and> j < 4 * i + 4 then g j else c ! j)"
    proof (cases "4 * i \<le> j \<and> j < 4 * i + 4")
      case True
      then have q: "j - 4 * i < 4" by auto
      have lx: "4 * i + 4 \<le> length x" and ly: "4 * i + 4 \<le> length y"
        using * assms by auto
      have ldx: "(lane (2 * (j - 4 * i)) (mm_loadu_si128 (flat x) (8 * i)) :: int16) = re (x ! j)"
          "(lane (2 * (j - 4 * i) + 1) (mm_loadu_si128 (flat x) (8 * i)) :: int16) = im (x ! j)"
        using lane_loadu_flat [OF n _ _ lx, of j] True by simp_all
      have ldy: "(lane (2 * (j - 4 * i)) (mm_loadu_si128 (flat y) (8 * i)) :: int16) = re (y ! j)"
          "(lane (2 * (j - 4 * i) + 1) (mm_loadu_si128 (flat y) (8 * i)) :: int16) = im (y ! j)"
        using lane_loadu_flat [OF n _ _ ly, of j] True by simp_all
      have "vstep i c ! j
          = \<lparr>re = lane (2 * (j - 4 * i)) (res (mm_loadu_si128 (flat x) (8 * i)) (mm_loadu_si128 (flat y) (8 * i))),
             im = lane (2 * (j - 4 * i) + 1) (res (mm_loadu_si128 (flat x) (8 * i)) (mm_loadu_si128 (flat y) (8 * i)))\<rparr>"
        using True nth_unflat_storeu [OF *(2) n, of i] by (simp add: vstep_def)
      also have "\<dots> = g j"
        by (simp only: lanes_res [OF q] ldx ldy g_def vec_conjugate_multiply_def)
      finally show ?thesis using True by simp
    next
      case False
      then show ?thesis
        using *(2) nth_unflat_storeu [OF *(2) n, of i] by (auto simp: vstep_def)
    qed
  qed (use assms in \<open>simp_all add: vstep_def\<close>)
  finally show ?thesis by (simp only: g_def h_def)
qed

lemma ext_v_conj_mul_complex16_int32_exact:
  assumes "0 \<le> len1" "nat len1 \<le> length re_out" "nat len1 \<le> length im_out"
      and "nat len1 \<le> length x" "nat len1 \<le> length y"
  shows "fst (ext_v_conj_mul_complex16_int32 re_out lenout1 im_out lenout2 x len1 y len2)
           = (map (\<lambda>j. fst (spec_conjugate_multiply_int32 (x ! j) (y ! j))) [0..<nat len1]
                @ drop (nat len1) re_out,
              map (\<lambda>j. if j < 4 * (nat len1 div 4)
                         then snd (vec_conjugate_multiply_int32 (x ! j) (y ! j))
                         else snd (spec_conjugate_multiply_int32 (x ! j) (y ! j))) [0..<nat len1]
                @ drop (nat len1) im_out)"
proof -
  define gr where "gr = (\<lambda>j. fst (vec_conjugate_multiply_int32 (x ! j) (y ! j)))"
  define gi where "gi = (\<lambda>j. snd (vec_conjugate_multiply_int32 (x ! j) (y ! j)))"
  define hr where "hr = (\<lambda>j. fst (spec_conjugate_multiply_int32 (x ! j) (y ! j)))"
  define hi where "hi = (\<lambda>j. snd (spec_conjugate_multiply_int32 (x ! j) (y ! j)))"
  define vr where "vr = (\<lambda>i (c :: int32 list). mm_storeu_si128 c (4 * i)
      (mm_madd_epi16 (mm_loadu_si128 (flat y) (8 * i)) (mm_loadu_si128 (flat x) (8 * i))))"
  define vi where "vi = (\<lambda>i (c :: int32 list). mm_storeu_si128 c (4 * i)
      (mm_madd_epi16
        (mm_shufflelo_epi16 (mm_shufflehi_epi16
           (mm_add_epi32 (mm_xor_si128 (mm_loadu_si128 (flat y) (8 * i)) (mm_set1_epi32 0xFFFF0000))
              (mm_set1_epi32 0x00010000))
           (MM_SHUFFLE 2 3 0 1)) (MM_SHUFFLE 2 3 0 1))
        (mm_loadu_si128 (flat x) (8 * i))))"
  have "fst (ext_v_conj_mul_complex16_int32 re_out lenout1 im_out lenout2 x len1 y len2)
      = for_loop (c_div len1 (int 4) * int 4) len1
          (\<lambda>i (a, b). (a[nat i := hr (nat i)], b[nat i := hi (nat i)]))
          (for_loop 0 (c_div len1 (int 4)) (\<lambda>i (a, b). (vr (nat i) a, vi (nat i) b))
             (re_out, im_out))"
    by (simp add: ext_v_conj_mul_complex16_int32_def Let_def hr_def hi_def vr_def vi_def
        spec_conjugate_multiply_int32_def)
  also have "\<dots> = (for_loop (c_div len1 (int 4) * int 4) len1 (\<lambda>i c. c[nat i := hr (nat i)])
                        (for_loop 0 (c_div len1 (int 4)) (\<lambda>i. vr (nat i)) re_out),
                   for_loop (c_div len1 (int 4) * int 4) len1 (\<lambda>i c. c[nat i := hi (nat i)])
                        (for_loop 0 (c_div len1 (int 4)) (\<lambda>i. vi (nat i)) im_out))"
    by (simp only: for_loop_pair)
  also have "for_loop (c_div len1 (int 4) * int 4) len1 (\<lambda>i c. c[nat i := hr (nat i)])
               (for_loop 0 (c_div len1 (int 4)) (\<lambda>i. vr (nat i)) re_out)
           = map (\<lambda>j. if j < 4 * (nat len1 div 4) then gr j else hr j) [0..<nat len1]
               @ drop (nat len1) re_out"
  proof (rule vec_then_scalar2)
    fix i j and c :: "int32 list"
    assume *: "4 * i + 4 \<le> nat len1" "j < length c"
    have n: "128 div LENGTH(16) = 2 * 4" by simp
    show "vr i c ! j = (if 4 * i \<le> j \<and> j < 4 * i + 4 then gr j else c ! j)"
    proof (cases "4 * i \<le> j \<and> j < 4 * i + 4")
      case True
      then have q: "j - 4 * i < 4" by auto
      have lx: "4 * i + 4 \<le> length x" and ly: "4 * i + 4 \<le> length y"
        using * assms by auto
      have ldx: "(lane (2 * (j - 4 * i)) (mm_loadu_si128 (flat x) (8 * i)) :: int16) = re (x ! j)"
          "(lane (2 * (j - 4 * i) + 1) (mm_loadu_si128 (flat x) (8 * i)) :: int16) = im (x ! j)"
        using lane_loadu_flat [OF n _ _ lx, of j] True by simp_all
      have ldy: "(lane (2 * (j - 4 * i)) (mm_loadu_si128 (flat y) (8 * i)) :: int16) = re (y ! j)"
          "(lane (2 * (j - 4 * i) + 1) (mm_loadu_si128 (flat y) (8 * i)) :: int16) = im (y ! j)"
        using lane_loadu_flat [OF n _ _ ly, of j] True by simp_all
      have "vr i c ! j = lane (j - 4 * i)
          (mm_madd_epi16 (mm_loadu_si128 (flat y) (8 * i)) (mm_loadu_si128 (flat x) (8 * i)))"
        using True *(2) by (simp add: vr_def nth_storeu_si128)
      also have "\<dots> = gr j"
        by (simp only: lane_madd_epi16 [OF q] ldx ldy gr_def vec_conjugate_multiply_int32_def fst_conv)
      finally show ?thesis using True by simp
    next
      case False
      then show ?thesis
        using *(2) by (auto simp: vr_def nth_storeu_si128)
    qed
  qed (use assms in \<open>simp_all add: vr_def\<close>)
  also have "for_loop (c_div len1 (int 4) * int 4) len1 (\<lambda>i c. c[nat i := hi (nat i)])
               (for_loop 0 (c_div len1 (int 4)) (\<lambda>i. vi (nat i)) im_out)
           = map (\<lambda>j. if j < 4 * (nat len1 div 4) then gi j else hi j) [0..<nat len1]
               @ drop (nat len1) im_out"
  proof (rule vec_then_scalar2)
    fix i j and c :: "int32 list"
    assume *: "4 * i + 4 \<le> nat len1" "j < length c"
    have n: "128 div LENGTH(16) = 2 * 4" by simp
    show "vi i c ! j = (if 4 * i \<le> j \<and> j < 4 * i + 4 then gi j else c ! j)"
    proof (cases "4 * i \<le> j \<and> j < 4 * i + 4")
      case True
      then have q: "j - 4 * i < 4" by auto
      have lx: "4 * i + 4 \<le> length x" and ly: "4 * i + 4 \<le> length y"
        using * assms by auto
      have ldx: "(lane (2 * (j - 4 * i)) (mm_loadu_si128 (flat x) (8 * i)) :: int16) = re (x ! j)"
          "(lane (2 * (j - 4 * i) + 1) (mm_loadu_si128 (flat x) (8 * i)) :: int16) = im (x ! j)"
        using lane_loadu_flat [OF n _ _ lx, of j] True by simp_all
      have ldy: "(lane (2 * (j - 4 * i)) (mm_loadu_si128 (flat y) (8 * i)) :: int16) = re (y ! j)"
          "(lane (2 * (j - 4 * i) + 1) (mm_loadu_si128 (flat y) (8 * i)) :: int16) = im (y ! j)"
        using lane_loadu_flat [OF n _ _ ly, of j] True by simp_all
      have "vi i c ! j = lane (j - 4 * i)
          (mm_madd_epi16
            (mm_shufflelo_epi16 (mm_shufflehi_epi16
               (mm_add_epi32 (mm_xor_si128 (mm_loadu_si128 (flat y) (8 * i)) (mm_set1_epi32 0xFFFF0000))
                  (mm_set1_epi32 0x00010000))
               (MM_SHUFFLE 2 3 0 1)) (MM_SHUFFLE 2 3 0 1))
            (mm_loadu_si128 (flat x) (8 * i)))"
        using True *(2) by (simp add: vi_def nth_storeu_si128)
      also have "\<dots> = gi j"
        by (simp only: lane_madd_epi16 [OF q] lane_swap_pairs [OF q] lane_negate_im [OF q]
            ldx ldy gi_def vec_conjugate_multiply_int32_def snd_conv)
      finally show ?thesis using True by simp
    next
      case False
      then show ?thesis
        using *(2) by (auto simp: vi_def nth_storeu_si128)
    qed
  qed (use assms in \<open>simp_all add: vi_def\<close>)
  finally show ?thesis
    by (simp only: gr_def gi_def hr_def hi_def fst_vec_conjugate_multiply_int32 if_cancel)
qed

lemma ext_v_mul_complex16_correct:
  assumes "0 \<le> len1" "nat len1 \<le> length out" "nat len1 \<le> length x" "nat len1 \<le> length y"
      and "0 \<le> shift" "shift < 32"
      and "\<And>j. j < 4 * (nat len1 div 4) \<Longrightarrow> im (x ! j) \<noteq> - 32768"
  shows "fst (ext_v_mul_complex16 out lenout x len1 y len2 shift)
           = map (\<lambda>j. spec_multiply (x ! j) (y ! j) shift) [0..<nat len1] @ drop (nat len1) out"
proof -
  have "map (\<lambda>j. if j < 4 * (nat len1 div 4) then vec_multiply (x ! j) (y ! j) shift
                 else spec_multiply (x ! j) (y ! j) shift) [0..<nat len1]
      = map (\<lambda>j. spec_multiply (x ! j) (y ! j) shift) [0..<nat len1]"
    using assms(7) by (intro map_cong refl) (simp add: vec_multiply_eq_spec)
  then show ?thesis
    by (simp only: ext_v_mul_complex16_exact [OF assms(1-6)])
qed

lemma ext_v_conj_mul_complex16_correct:
  assumes "0 \<le> len1" "nat len1 \<le> length out" "nat len1 \<le> length x" "nat len1 \<le> length y"
      and "0 \<le> shift" "shift < 32"
      and "\<And>j. j < 4 * (nat len1 div 4) \<Longrightarrow> im (y ! j) \<noteq> - 32768"
  shows "fst (ext_v_conj_mul_complex16 out lenout x len1 y len2 shift)
           = map (\<lambda>j. spec_conjugate_multiply (x ! j) (y ! j) shift) [0..<nat len1]
             @ drop (nat len1) out"
proof -
  have "map (\<lambda>j. if j < 4 * (nat len1 div 4) then vec_conjugate_multiply (x ! j) (y ! j) shift
                 else spec_conjugate_multiply (x ! j) (y ! j) shift) [0..<nat len1]
      = map (\<lambda>j. spec_conjugate_multiply (x ! j) (y ! j) shift) [0..<nat len1]"
    using assms(7) by (intro map_cong refl) (simp add: vec_conjugate_multiply_eq_spec)
  then show ?thesis
    by (simp only: ext_v_conj_mul_complex16_exact [OF assms(1-6)])
qed

lemma ext_v_conj_mul_complex16_int32_correct:
  assumes "0 \<le> len1" "nat len1 \<le> length re_out" "nat len1 \<le> length im_out"
      and "nat len1 \<le> length x" "nat len1 \<le> length y"
      and "\<And>j. j < 4 * (nat len1 div 4) \<Longrightarrow> im (y ! j) \<noteq> - 32768"
  shows "fst (ext_v_conj_mul_complex16_int32 re_out lenout1 im_out lenout2 x len1 y len2)
           = (map (\<lambda>j. fst (spec_conjugate_multiply_int32 (x ! j) (y ! j))) [0..<nat len1]
                @ drop (nat len1) re_out,
              map (\<lambda>j. snd (spec_conjugate_multiply_int32 (x ! j) (y ! j))) [0..<nat len1]
                @ drop (nat len1) im_out)"
proof -
  have "map (\<lambda>j. if j < 4 * (nat len1 div 4)
                 then snd (vec_conjugate_multiply_int32 (x ! j) (y ! j))
                 else snd (spec_conjugate_multiply_int32 (x ! j) (y ! j))) [0..<nat len1]
      = map (\<lambda>j. snd (spec_conjugate_multiply_int32 (x ! j) (y ! j))) [0..<nat len1]"
    using assms(6) by (intro map_cong refl) (simp add: vec_conjugate_multiply_int32_eq_spec)
  then show ?thesis
    by (simp only: ext_v_conj_mul_complex16_int32_exact [OF assms(1-5)])
qed

text \<open>
  C2 claims that \<^verbatim>\<open>multiply\<close> writes the shifted exact products for every element. The
  vector loop negates the imaginary part in 16 bits, where \<open>-32768\<close> is its own
  negation: for \<open>x = (0, -32768)\<close>, \<open>y = (0, 1)\<close> and a shift of one bit the real part
  should be \<open>32768 >> 1 = 16384\<close>, and the kernel writes \<open>-16384\<close> to element 0 of a
  buffer of four.
\<close>

theorem mul_complex16_vector_path_wraps_negation:
  "fst (ext_v_mul_complex16
          [\<lparr>re = 0, im = 0\<rparr>, \<lparr>re = 0, im = 0\<rparr>, \<lparr>re = 0, im = 0\<rparr>, \<lparr>re = 0, im = 0\<rparr>] 4
          [\<lparr>re = 0, im = - 32768\<rparr>, \<lparr>re = 0, im = 0\<rparr>, \<lparr>re = 0, im = 0\<rparr>, \<lparr>re = 0, im = 0\<rparr>] 4
          [\<lparr>re = 0, im = 1\<rparr>, \<lparr>re = 0, im = 0\<rparr>, \<lparr>re = 0, im = 0\<rparr>, \<lparr>re = 0, im = 0\<rparr>] 4 1) ! 0
     = \<lparr>re = - 16384, im = 0\<rparr>
   \<and> spec_multiply \<lparr>re = 0, im = - 32768\<rparr> \<lparr>re = 0, im = 1\<rparr> 1 = \<lparr>re = 16384, im = 0\<rparr>"
  unfolding ext_v_mul_complex16_def Let_def c_div_4_4 for_loop_once
  apply (simp only: mult_1 for_loop_empty [OF order_refl])
  apply code_simp
  done

section \<open>Packing\<close>

text \<open>
  For \<open>0 \<le> lenin\<close> and buffers that hold \<open>lenin\<close> elements, \<^verbatim>\<open>pack\<close> saturates the
  elements of the vector loop, the first \<open>8 * (lenin div 8)\<close>, and keeps the low byte of
  each component of the others.
\<close>

lemma lane_saturated_pack:
  "k < 16 \<Longrightarrow> (lane k (saturated_pack a b) :: int8)
     = saturate_int8 (if k < 8 then lane k a else lane (k - 8) b)"
  by (simp add: saturated_pack_def epi16_def lane_of_lanes nth_append)

lemma c_div_pack: "0 \<le> lenin \<Longrightarrow> max 0 (c_div (c_div lenin 4) 2) = c_div lenin (int 8)"
proof -
  assume l: "0 \<le> lenin"
  then have "0 \<le> lenin div 4" by simp
  then show ?thesis
    using l by (simp add: c_div_nonneg zdiv_zmult2_eq)
qed

lemma ext_v_pack_complex16_complex8_exact:
  assumes "0 \<le> lenin" "nat lenin \<le> length output" "nat lenin \<le> length input"
  shows "ext_v_pack_complex16_complex8 output lenout input lenin
           = map (\<lambda>j. if j < 8 * (nat lenin div 8) then cplx_map saturate_int8 (input ! j)
                    else cplx_map ucast (input ! j)) [0..<nat lenin] @ drop (nat lenin) output"
proof -
  define g where "g = (\<lambda>j. (cplx_map saturate_int8 (input ! j) :: complex8))"
  define h where "h = (\<lambda>j. (cplx_map ucast (input ! j) :: complex8))"
  define vstep where "vstep = (\<lambda>i (output :: complex8 list).
      unflat (mm_storeu_si128 (flat output) (16 * i)
                (saturated_pack (load_w (flat input) (16 * i)) (load_w (flat input) (16 * i + 8)))))"
  have "ext_v_pack_complex16_complex8 output lenout input lenin
      = for_loop (c_div lenin (int 8) * int 8) lenin (\<lambda>i c. c[nat i := h (nat i)])
          (for_loop 0 (c_div lenin (int 8)) (\<lambda>i. vstep (nat i)) output)"
    using c_div_pack [OF assms(1)]
    by (simp add: ext_v_pack_complex16_complex8_def Let_def h_def vstep_def cplx_map_def
        mm_storeu_si128_def mult.commute)
  also have "\<dots> = map (\<lambda>j. if j < 8 * (nat lenin div 8) then g j else h j) [0..<nat lenin]
                     @ drop (nat lenin) output"
  proof (rule vec_then_scalar2)
    fix i j and c :: "complex8 list"
    assume *: "8 * i + 8 \<le> nat lenin" "j < length c"
    have n: "128 div LENGTH(8) = 2 * 8" by simp
    show "vstep i c ! j = (if 8 * i \<le> j \<and> j < 8 * i + 8 then g j else c ! j)"
    proof (cases "8 * i \<le> j \<and> j < 8 * i + 8")
      case True
      then have k: "2 * (j - 8 * i) < 16" "2 * (j - 8 * i) + 1 < 16" by auto
      have li: "16 * i + 16 \<le> length (flat input)" and jl: "j < length input"
        using * True assms by auto
      have ld: "(lane q (load_w (flat input) off :: m128i) :: int16) = flat input ! (off + q)"
        if "q < 8" "off + 8 \<le> length (flat input)" for q off
        using that by (intro lane_load_w) simp_all
      have lo: "(if 2 * (j - 8 * i) < 8
                 then (lane (2 * (j - 8 * i)) (load_w (flat input) (16 * i) :: m128i) :: int16)
                 else lane (2 * (j - 8 * i) - 8) (load_w (flat input) (16 * i + 8) :: m128i))
                = re (input ! j)"
      proof (cases "2 * (j - 8 * i) < 8")
        case True
        have "16 * i + 2 * (j - 8 * i) = 2 * j" using \<open>8 * i \<le> j \<and> j < 8 * i + 8\<close> by auto
        then show ?thesis
          using True li jl ld [of "2 * (j - 8 * i)" "16 * i"] by simp
      next
        case False
        have "16 * i + 8 + (2 * (j - 8 * i) - 8) = 2 * j"
          using \<open>8 * i \<le> j \<and> j < 8 * i + 8\<close> False by auto
        then show ?thesis
          using False li jl k ld [of "2 * (j - 8 * i) - 8" "16 * i + 8"] by simp
      qed
      have hi: "(if 2 * (j - 8 * i) + 1 < 8
                 then (lane (2 * (j - 8 * i) + 1) (load_w (flat input) (16 * i) :: m128i) :: int16)
                 else lane (2 * (j - 8 * i) + 1 - 8) (load_w (flat input) (16 * i + 8) :: m128i))
                = im (input ! j)"
      proof (cases "2 * (j - 8 * i) + 1 < 8")
        case True
        have "16 * i + (2 * (j - 8 * i) + 1) = Suc (2 * j)"
          using \<open>8 * i \<le> j \<and> j < 8 * i + 8\<close> by auto
        then show ?thesis
          using True li jl ld [of "2 * (j - 8 * i) + 1" "16 * i"] by simp
      next
        case False
        have "16 * i + 8 + (2 * (j - 8 * i) + 1 - 8) = Suc (2 * j)"
          using \<open>8 * i \<le> j \<and> j < 8 * i + 8\<close> False by auto
        then show ?thesis
          using False li jl k ld [of "2 * (j - 8 * i) + 1 - 8" "16 * i + 8"] by simp
      qed
      have st: "unflat (mm_storeu_si128 (flat c) (16 * i) v) ! j
                  = \<lparr>re = lane (2 * (j - 8 * i)) v, im = lane (2 * (j - 8 * i) + 1) v\<rparr>" for v
        using True nth_unflat_storeu [OF *(2) n, of i v] by simp
      have "vstep i c ! j
          = \<lparr>re = saturate_int8 (re (input ! j)), im = saturate_int8 (im (input ! j))\<rparr>"
        unfolding vstep_def st lane_saturated_pack [OF k(1)] lane_saturated_pack [OF k(2)] lo hi ..
      then show ?thesis
        using True by (simp add: g_def cplx_map_def)
    next
      case False
      then show ?thesis
        using *(2) nth_unflat_storeu [OF *(2) n, of i] by (auto simp: vstep_def)
    qed
  qed (use assms in \<open>simp_all add: vstep_def\<close>)
  finally show ?thesis
    unfolding g_def h_def .
qed

text \<open>
  C5 claims that \<^verbatim>\<open>pack\<close> saturates every element, those of the remainder loop
  included. The remainder loop assigns the 16-bit component to the 8-bit field, which
  keeps its low byte: the single element \<open>(200, -200)\<close> is packed to \<open>(-56, 56)\<close>, where
  saturation gives \<open>(127, -128)\<close>.
\<close>

theorem pack_remainder_wraps:
  "map (\<lambda>c. (sint (re c), sint (im c)))
       (ext_v_pack_complex16_complex8 [\<lparr>re = 0, im = 0\<rparr>] 1 [\<lparr>re = 200, im = - 200\<rparr>] 1)
     = [(- 56, 56)]
   \<and> (sint (saturate_int8 200), sint (saturate_int8 (- 200))) = (127, - 128)"
  by code_simp

section \<open>Bitwise OR\<close>

lemma nth_store_or_load:
  fixes out in1 in2 :: "unum8 list"
  assumes "off + LENGTH('b::len) div 8 \<le> length in1" "off + LENGTH('b) div 8 \<le> length in2"
  shows "store_w out off ((load_w in1 off :: 'b word) OR load_w in2 off) ! j =
     (if off \<le> j \<and> j < off + LENGTH('b) div 8 \<and> j < length out
      then in1 ! j OR in2 ! j else out ! j)"
  using assms by (auto simp: nth_store_w lane_or lane_load_w)

lemma nth_or_byte_spec:
  assumes "n \<le> length out" "n \<le> length in1" "n \<le> length in2"
  shows "(map2 (OR) (take n in1) (take n in2) @ drop n out) ! j =
     (if j < n then in1 ! j OR in2 ! j else out ! j)"
  using assms by (auto simp: nth_append min_def)

lemma ext_v_or_48_bytes:
  assumes "6 \<le> length output" "6 \<le> length input1" "6 \<le> length input2"
  shows "ext_v_or_48 output input1 input2
           = map2 (OR) (take 6 input1) (take 6 input2) @ drop 6 output"
proof (rule nth_equalityI)
  show "length (ext_v_or_48 output input1 input2)
          = length (map2 (OR) (take 6 input1) (take 6 input2) @ drop 6 output)"
    using assms by (simp add: ext_v_or_48_def Let_def length_store_w)
next
  fix j assume "j < length (ext_v_or_48 output input1 input2)"
  show "ext_v_or_48 output input1 input2 ! j
          = (map2 (OR) (take 6 input1) (take 6 input2) @ drop 6 output) ! j"
    using assms
    by (simp add: nth_or_byte_spec ext_v_or_48_def Let_def or_via_int16 nth_store_or_load length_store_w)
qed

lemma ext_v_or_96_bytes:
  assumes "12 \<le> length output" "12 \<le> length input1" "12 \<le> length input2"
  shows "ext_v_or_96 output input1 input2
           = map2 (OR) (take 12 input1) (take 12 input2) @ drop 12 output"
proof (rule nth_equalityI)
  show "length (ext_v_or_96 output input1 input2)
          = length (map2 (OR) (take 12 input1) (take 12 input2) @ drop 12 output)"
    using assms by (simp add: ext_v_or_96_def Let_def length_store_w)
next
  fix j assume "j < length (ext_v_or_96 output input1 input2)"
  show "ext_v_or_96 output input1 input2 ! j
          = (map2 (OR) (take 12 input1) (take 12 input2) @ drop 12 output) ! j"
    using assms
    by (simp add: nth_or_byte_spec ext_v_or_96_def Let_def nth_store_or_load length_store_w)
qed

lemma ext_v_or_192_bytes:
  assumes "24 \<le> length output" "24 \<le> length input1" "24 \<le> length input2"
  shows "ext_v_or_192 output input1 input2
           = map2 (OR) (take 24 input1) (take 24 input2) @ drop 24 output"
proof (rule nth_equalityI)
  show "length (ext_v_or_192 output input1 input2)
          = length (map2 (OR) (take 24 input1) (take 24 input2) @ drop 24 output)"
    using assms by (simp add: ext_v_or_192_def Let_def length_store_w)
next
  fix j assume "j < length (ext_v_or_192 output input1 input2)"
  show "ext_v_or_192 output input1 input2 ! j
          = (map2 (OR) (take 24 input1) (take 24 input2) @ drop 24 output) ! j"
    using assms
    by (simp add: nth_or_byte_spec ext_v_or_192_def Let_def nth_store_or_load length_store_w)
qed

lemma ext_v_or_288_bytes:
  assumes "36 \<le> length output" "36 \<le> length input1" "36 \<le> length input2"
  shows "ext_v_or_288 output input1 input2
           = map2 (OR) (take 36 input1) (take 36 input2) @ drop 36 output"
proof -
  let ?o1 = "map2 (OR) (take 24 input1) (take 24 input2) @ drop 24 output"
  have o1: "ext_v_or_192 output input1 input2 = ?o1"
    using assms by (intro ext_v_or_192_bytes) simp_all
  have t: "take 24 ?o1 = map2 (OR) (take 24 input1) (take 24 input2)"
    using assms by simp
  have d: "drop 24 ?o1 = drop 24 output"
    using assms by simp
  have o2: "ext_v_or_96 (drop 24 output) (drop 24 input1) (drop 24 input2)
              = map2 (OR) (take 12 (drop 24 input1)) (take 12 (drop 24 input2)) @ drop 12 (drop 24 output)"
    using assms by (intro ext_v_or_96_bytes) simp_all
  have "ext_v_or_288 output input1 input2
          = take 24 ?o1 @ ext_v_or_96 (drop 24 ?o1) (drop 24 input1) (drop 24 input2)"
    by (simp only: ext_v_or_288_def Let_def o1)
  also have "\<dots> = map2 (OR) (take 24 input1) (take 24 input2)
            @ map2 (OR) (take 12 (drop 24 input1)) (take 12 (drop 24 input2)) @ drop 12 (drop 24 output)"
    by (simp only: t d o2)
  also have "drop 12 (drop 24 output) = drop 36 output"
    by simp
  finally have "ext_v_or_288 output input1 input2
          = (map2 (OR) (take 24 input1) (take 24 input2)
            @ map2 (OR) (take 12 (drop 24 input1)) (take 12 (drop 24 input2))) @ drop 36 output"
    by simp
  also have "map2 (OR) (take 24 input1) (take 24 input2)
            @ map2 (OR) (take 12 (drop 24 input1)) (take 12 (drop 24 input2))
          = map2 (OR) (take 24 input1 @ take 12 (drop 24 input1)) (take 24 input2 @ take 12 (drop 24 input2))"
    using assms by (simp add: zip_append)
  also have "take 24 input1 @ take 12 (drop 24 input1) = take 36 input1"
    using take_add [of 24 12 input1] by simp
  also have "take 24 input2 @ take 12 (drop 24 input2) = take 36 input2"
    using take_add [of 24 12 input2] by simp
  finally show ?thesis by simp
qed

lemma or_byte_loop_bytes:
  assumes "n = nat ((inlen1 + 7) div 8)"
    and "n \<le> length output" "n \<le> length input1" "n \<le> length input2"
  shows "or_byte_loop output input1 inlen1 input2
           = map2 (OR) (take n input1) (take n input2) @ drop n output"
proof -
  have cnt: "nat (c_div (inlen1 + 7) 8) = n"
    unfolding assms(1) c_div_def by (cases "0 \<le> inlen1 + 7") (auto simp: sgn_if)
  have loop: "or_byte_loop output input1 inlen1 input2
          = fold (\<lambda>k out. out[k := input1 ! k OR input2 ! k]) [0..<n] output"
    by (simp add: or_byte_loop_def for_loop_nat cnt or_via_int8)
  show ?thesis
  proof (rule nth_equalityI)
    show "length (or_byte_loop output input1 inlen1 input2)
          = length (map2 (OR) (take n input1) (take n input2) @ drop n output)"
      using assms(2-4) by (simp add: loop length_fold_update)
  next
    fix j assume "j < length (or_byte_loop output input1 inlen1 input2)"
    then have "j < length output" by (simp add: loop length_fold_update)
    then show "or_byte_loop output input1 inlen1 input2 ! j
          = (map2 (OR) (take n input1) (take n input2) @ drop n output) ! j"
      using assms(2-4) nth_fold_update_off [where off = 0 and f = "\<lambda>k. input1 ! k OR input2 ! k" and n = n
          and mem = "output" and j = j]
      by (simp add: loop nth_or_byte_spec)
  qed
qed

text \<open>
  C7: for buffers that hold the \<open>n = ceil(inlen1 / 8)\<close> bytes, \<^verbatim>\<open>__ext_v_or\<close> returns
  what the generic byte loop returns, whatever \<^verbatim>\<open>inlen1\<close> is: the first \<open>n\<close> bytes are
  \<open>input1[i] | input2[i]\<close> and the bytes after them are those of the output buffer. For
  \<^verbatim>\<open>inlen1\<close> 48, 96, 192 and 288 the kernel is the fixed-width path of that width, so
  each of these paths agrees with the byte loop.
\<close>

theorem or_dispatch_equals_byte_loop:
  assumes "n = nat ((inlen1 + 7) div 8)"
    and "n \<le> length output" "n \<le> length input1" "n \<le> length input2"
  shows "ext_v_or output outlen input1 inlen1 input2 inlen2 = or_byte_loop output input1 inlen1 input2
       \<and> or_byte_loop output input1 inlen1 input2
           = map2 (OR) (take n input1) (take n input2) @ drop n output
       \<and> (inlen1 = 48 \<longrightarrow> ext_v_or output outlen input1 inlen1 input2 inlen2 = ext_v_or_48 output input1 input2)
       \<and> (inlen1 = 96 \<longrightarrow> ext_v_or output outlen input1 inlen1 input2 inlen2 = ext_v_or_96 output input1 input2)
       \<and> (inlen1 = 192 \<longrightarrow> ext_v_or output outlen input1 inlen1 input2 inlen2 = ext_v_or_192 output input1 input2)
       \<and> (inlen1 = 288 \<longrightarrow> ext_v_or output outlen input1 inlen1 input2 inlen2 = ext_v_or_288 output input1 input2)
       \<and> (\<forall>i < n. ext_v_or output outlen input1 inlen1 input2 inlen2 ! i = input1 ! i OR input2 ! i)"
proof -
  have loop: "or_byte_loop output input1 inlen1 input2
           = map2 (OR) (take n input1) (take n input2) @ drop n output"
    using assms by (rule or_byte_loop_bytes)
  have disp: "ext_v_or output outlen input1 inlen1 input2 inlen2 = or_byte_loop output input1 inlen1 input2"
  proof -
    consider "inlen1 = 48" | "inlen1 = 96" | "inlen1 = 192" | "inlen1 = 288"
      | "inlen1 \<noteq> 48" "inlen1 \<noteq> 96" "inlen1 \<noteq> 192" "inlen1 \<noteq> 288"
      by blast
    then show ?thesis
    proof cases
      case 1
      then have n: "n = 6" using assms(1) by simp
      have "ext_v_or output outlen input1 inlen1 input2 inlen2 = ext_v_or_48 output input1 input2"
        using 1 by (simp add: ext_v_or_def)
      also have "\<dots> = map2 (OR) (take n input1) (take n input2) @ drop n output"
        using assms(2-4) unfolding n by (rule ext_v_or_48_bytes)
      finally show ?thesis by (simp add: loop)
    next
      case 2
      then have n: "n = 12" using assms(1) by simp
      have "ext_v_or output outlen input1 inlen1 input2 inlen2 = ext_v_or_96 output input1 input2"
        using 2 by (simp add: ext_v_or_def)
      also have "\<dots> = map2 (OR) (take n input1) (take n input2) @ drop n output"
        using assms(2-4) unfolding n by (rule ext_v_or_96_bytes)
      finally show ?thesis by (simp add: loop)
    next
      case 3
      then have n: "n = 24" using assms(1) by simp
      have "ext_v_or output outlen input1 inlen1 input2 inlen2 = ext_v_or_192 output input1 input2"
        using 3 by (simp add: ext_v_or_def)
      also have "\<dots> = map2 (OR) (take n input1) (take n input2) @ drop n output"
        using assms(2-4) unfolding n by (rule ext_v_or_192_bytes)
      finally show ?thesis by (simp add: loop)
    next
      case 4
      then have n: "n = 36" using assms(1) by simp
      have "ext_v_or output outlen input1 inlen1 input2 inlen2 = ext_v_or_288 output input1 input2"
        using 4 by (simp add: ext_v_or_def)
      also have "\<dots> = map2 (OR) (take n input1) (take n input2) @ drop n output"
        using assms(2-4) unfolding n by (rule ext_v_or_288_bytes)
      finally show ?thesis by (simp add: loop)
    next
      case 5
      then show ?thesis
        by (simp add: ext_v_or_def or_byte_loop_def)
    qed
  qed
  have nth: "\<forall>i < n. ext_v_or output outlen input1 inlen1 input2 inlen2 ! i = input1 ! i OR input2 ! i"
    using assms(2-4) by (simp add: disp loop nth_or_byte_spec)
  show ?thesis
    using disp loop nth by (simp add: ext_v_or_def)
qed

theorem or_dispatch_equals_byte_loop_witness:
  "ext_v_or [0, 0, 0, 0, 0, 0, 9, 9] 0 [1, 2, 3, 4, 5, 6, 7, 8] 48 [16, 16, 16, 16, 16, 16, 16, 16] 48
     = [17, 18, 19, 20, 21, 22, 9, 9]
   \<and> ext_v_or [0, 0, 9] 0 [1, 2, 3] 12 [16, 16, 16] 12 = [17, 18, 9]"
  using or_dispatch_equals_byte_loop [of 6 48 "[0, 0, 0, 0, 0, 0, 9, 9]" "[1, 2, 3, 4, 5, 6, 7, 8]"
      "[16, 16, 16, 16, 16, 16, 16, 16]" 0 48]
    or_dispatch_equals_byte_loop [of 2 12 "[0, 0, 9]" "[1, 2, 3]" "[16, 16, 16]" 0 12]
  by simp

section \<open>Unused parameters\<close>

text \<open>
  C9: the \<^verbatim>\<open>__unused_*\<close> arguments of the add, sub, hadd and shift kernels, the
  \<^verbatim>\<open>outlen\<close> argument of the bitwise kernels and the length argument of the sums of four
  elements have no effect: two calls that differ in them only return the same buffer
  and the same value.
\<close>

theorem unused_lengths_have_no_effect:
  "ext_v_add_complex16 c16 len a16 u2 b16 u1 = ext_v_add_complex16 c16 len a16 u2' b16 u1'
   \<and> ext_v_add_complex32 c32 len a32 u2 b32 u1 = ext_v_add_complex32 c32 len a32 u2' b32 u1'
   \<and> ext_v_add_int16 ci16 len ai16 u2 bi16 u1 = ext_v_add_int16 ci16 len ai16 u2' bi16 u1'
   \<and> ext_v_add_int32 ci32 len ai32 u2 bi32 u1 = ext_v_add_int32 ci32 len ai32 u2' bi32 u1'
   \<and> ext_v_sub_complex16 c16 len a16 u2 b16 u1 = ext_v_sub_complex16 c16 len a16 u2' b16 u1'
   \<and> ext_v_sub_complex32 c32 len a32 u2 b32 u1 = ext_v_sub_complex32 c32 len a32 u2' b32 u1'
   \<and> ext_v_sub_int16 ci16 len ai16 u2 bi16 u1 = ext_v_sub_int16 ci16 len ai16 u2' bi16 u1'
   \<and> ext_v_sub_int32 ci32 len ai32 u2 bi32 u1 = ext_v_sub_int32 ci32 len ai32 u2' bi32 u1'
   \<and> ext_v_hadd_complex16 c16 u2 a16 u1 = ext_v_hadd_complex16 c16 u2' a16 u1'
   \<and> ext_v_hadd_int32 ci32 u2 ai32 u1 = ext_v_hadd_int32 ci32 u2' ai32 u1'
   \<and> ext_v_shift_right_complex32 c32 u3 a32 len shift = ext_v_shift_right_complex32 c32 u3' a32 len shift
   \<and> ext_v_shift_left_complex32 c32 u3 a32 len shift = ext_v_shift_left_complex32 c32 u3' a32 len shift
   \<and> ext_v_shift_right_complex16 c16 u3 a16 len shift = ext_v_shift_right_complex16 c16 u3' a16 len shift
   \<and> ext_v_shift_left_complex16 c16 u3 a16 len shift = ext_v_shift_left_complex16 c16 u3' a16 len shift
   \<and> ext_v_shift_right_int32 ci32 u3 ai32 len shift = ext_v_shift_right_int32 ci32 u3' ai32 len shift
   \<and> ext_v_shift_left_int32 ci32 u3 ai32 len shift = ext_v_shift_left_int32 ci32 u3' ai32 len shift
   \<and> ext_v_shift_right_int16 ci16 u3 ai16 len shift = ext_v_shift_right_int16 ci16 u3' ai16 len shift
   \<and> ext_v_shift_left_int16 ci16 u3 ai16 len shift = ext_v_shift_left_int16 ci16 u3' ai16 len shift
   \<and> ext_v_and output outlen input1 inlen1 input2 inlen2 = ext_v_and output outlen' input1 inlen1 input2 inlen2
   \<and> ext_v_andnot output outlen input1 inlen1 input2 inlen2 = ext_v_andnot output outlen' input1 inlen1 input2 inlen2
   \<and> ext_v_xor output outlen input1 inlen1 input2 inlen2 = ext_v_xor output outlen' input1 inlen1 input2 inlen2
   \<and> ext_v_or output outlen input1 inlen1 input2 inlen2 = ext_v_or output outlen' input1 inlen1 input2 inlen2
   \<and> ext_v_and8 output outlen input1 inlen1 input2 inlen2 = ext_v_and8 output outlen' input1 inlen1 input2 inlen2
   \<and> ext_v_andnot8 output outlen input1 inlen1 input2 inlen2 = ext_v_andnot8 output outlen' input1 inlen1 input2 inlen2
   \<and> ext_v_xor8 output outlen input1 inlen1 input2 inlen2 = ext_v_xor8 output outlen' input1 inlen1 input2 inlen2
   \<and> ext_v_or8 output outlen input1 inlen1 input2 inlen2 = ext_v_or8 output outlen' input1 inlen1 input2 inlen2
   \<and> ext_sumc32 a32 u20 = ext_sumc32 a32 u20'
   \<and> ext_sumc16 a16 u20 = ext_sumc16 a16 u20'
   \<and> ext_sumi32 ai32 u21 = ext_sumi32 ai32 u21'
   \<and> ext_sumi16 ai16 u21 = ext_sumi16 ai16 u21'"
  unfolding ext_v_add_complex16_def ext_v_add_complex32_def ext_v_add_int16_def ext_v_add_int32_def
    ext_v_sub_complex16_def ext_v_sub_complex32_def ext_v_sub_int16_def ext_v_sub_int32_def
    ext_v_hadd_complex16_def ext_v_hadd_int32_def
    ext_v_shift_right_complex32_def ext_v_shift_left_complex32_def
    ext_v_shift_right_complex16_def ext_v_shift_left_complex16_def
    ext_v_shift_right_int32_def ext_v_shift_left_int32_def
    ext_v_shift_right_int16_def ext_v_shift_left_int16_def
    ext_v_and_def ext_v_andnot_def ext_v_xor_def ext_v_or_def
    ext_v_and8_def ext_v_andnot8_def ext_v_xor8_def ext_v_or8_def
    ext_sumc32_def ext_sumc16_def ext_sumi32_def ext_sumi16_def
  by (intro conjI refl)

section \<open>FFT and IFFT dispatch by size\<close>

lemma set_spec_catalog:
  "set spec_catalog =
     {16, 32, 64, 128, 256, 512, 1024, 2048,
      12, 24, 36, 48, 60, 72, 96, 108, 120, 144, 180, 192, 216, 240, 288, 300, 324, 360, 384,
      432, 480, 540, 576, 600, 648, 720, 768, 864, 900, 960, 972, 1080, 1152, 1200}"
  by (simp add: spec_catalog_def upt_rec)

lemma fft_in_catalog:
  "nFFTSize \<in> set spec_catalog \<Longrightarrow>
     ext_sora_fft FFTSafe console output nFFTSize input unused1
       = (FFTSafe (nat nFFTSize) input output, console)"
  unfolding set_spec_catalog by (auto simp: ext_sora_fft_def)

lemma ifft_in_catalog:
  "nFFTSize \<in> set spec_catalog \<Longrightarrow>
     ext_sora_ifft IFFTSafe console output nFFTSize input unused1
       = (IFFTSafe (nat nFFTSize) input output, console)"
  unfolding set_spec_catalog by (auto simp: ext_sora_ifft_def)

lemma fft_not_in_catalog:
  "nFFTSize \<notin> set spec_catalog \<Longrightarrow>
     ext_sora_fft FFTSafe console output nFFTSize input unused1
       = (output, console @ [(''__ext_sora_fft error: fft size %d not supported!'', nFFTSize)])"
  unfolding set_spec_catalog by (simp add: ext_sora_fft_def)

lemma ifft_not_in_catalog:
  "nFFTSize \<notin> set spec_catalog \<Longrightarrow>
     ext_sora_ifft IFFTSafe console output nFFTSize input unused1
       = (output, console @ [(''__ext_sora_ifft error: fft size %d not supported!'', nFFTSize)])"
  unfolding set_spec_catalog by (simp add: ext_sora_ifft_def)

text \<open>
  C3: for a size in the catalog, \<^verbatim>\<open>fft\<close> and \<^verbatim>\<open>ifft\<close> return the output of the
  transform of exactly that size and print nothing; for any other size they print that
  the size is not supported and return the output buffer as it was.
\<close>

theorem fft_dispatch_by_catalog:
  "(nFFTSize \<in> set spec_catalog \<longrightarrow>
      ext_sora_fft FFTSafe console output nFFTSize input unused1
        = (FFTSafe (nat nFFTSize) input output, console)
    \<and> ext_sora_ifft IFFTSafe console output nFFTSize input unused1
        = (IFFTSafe (nat nFFTSize) input output, console))
   \<and> (nFFTSize \<notin> set spec_catalog \<longrightarrow>
      ext_sora_fft FFTSafe console output nFFTSize input unused1
        = (output, console @ [(''__ext_sora_fft error: fft size %d not supported!'', nFFTSize)])
    \<and> ext_sora_ifft IFFTSafe console output nFFTSize input unused1
        = (output, console @ [(''__ext_sora_ifft error: fft size %d not supported!'', nFFTSize)]))"
  by (simp add: fft_in_catalog ifft_in_catalog fft_not_in_catalog ifft_not_in_catalog)

theorem fft_dispatch_by_catalog_witness:
  "ext_sora_fft (\<lambda>n inp out. rev (take n inp) @ drop n out) [] [\<lparr>re = 0, im = 0\<rparr>, \<lparr>re = 9, im = 9\<rparr>] 12
       [\<lparr>re = 1, im = 2\<rparr>, \<lparr>re = 3, im = 4\<rparr>] 0
     = ([\<lparr>re = 3, im = 4\<rparr>, \<lparr>re = 1, im = 2\<rparr>], [])
   \<and> ext_sora_ifft (\<lambda>n inp out. take n inp @ drop n out) [] [\<lparr>re = 0, im = 0\<rparr>, \<lparr>re = 9, im = 9\<rparr>] 13
       [\<lparr>re = 1, im = 2\<rparr>, \<lparr>re = 3, im = 4\<rparr>] 0
     = ([\<lparr>re = 0, im = 0\<rparr>, \<lparr>re = 9, im = 9\<rparr>],
        [(''__ext_sora_ifft error: fft size %d not supported!'', 13)])"
  using fft_dispatch_by_catalog [of 12 "\<lambda>n inp out. rev (take n inp) @ drop n out" "[]"
      "[\<lparr>re = 0, im = 0\<rparr>, \<lparr>re = 9, im = 9\<rparr>]" "[\<lparr>re = 1, im = 2\<rparr>, \<lparr>re = 3, im = 4\<rparr>]" 0
      "\<lambda>n inp out. take n inp @ drop n out"]
    fft_dispatch_by_catalog [of 13 "\<lambda>n inp out. rev (take n inp) @ drop n out" "[]"
      "[\<lparr>re = 0, im = 0\<rparr>, \<lparr>re = 9, im = 9\<rparr>]" "[\<lparr>re = 1, im = 2\<rparr>, \<lparr>re = 3, im = 4\<rparr>]" 0
      "\<lambda>n inp out. take n inp @ drop n out"]
  by (simp add: set_spec_catalog)

section \<open>Random bits\<close>

lemma rand_fold:
  "lo + n \<le> length arr \<Longrightarrow>
   fold (\<lambda>k (arr, g). let (v, g') = rand g in (arr[k := word_of_int v], g')) [lo..<lo + n] (arr, g)
   = (take lo arr @ map word_of_int (rand_draws rand g n) @ drop (lo + n) arr, rand_after rand g n)"
proof (induction n arbitrary: lo arr g)
  case 0
  then show ?case by simp
next
  case (Suc n)
  obtain v g' where r: "rand g = (v, g')" by (cases "rand g")
  have lo: "lo < length arr" using Suc.prems by simp
  have split: "[lo..<lo + Suc n] = lo # [Suc lo..<Suc lo + n]"
    using upt_conv_Cons [of lo "lo + Suc n"] by simp
  have "fold (\<lambda>k (arr, g). let (v, g') = rand g in (arr[k := word_of_int v], g')) [lo..<lo + Suc n] (arr, g)
      = fold (\<lambda>k (arr, g). let (v, g') = rand g in (arr[k := word_of_int v], g')) [Suc lo..<Suc lo + n]
          (arr[lo := word_of_int v], g')"
    unfolding split by (simp add: r)
  also have "\<dots> = (take (Suc lo) (arr[lo := word_of_int v]) @ map word_of_int (rand_draws rand g' n)
                     @ drop (Suc lo + n) (arr[lo := word_of_int v]), rand_after rand g' n)"
    using Suc.prems by (intro Suc.IH) simp
  also have "take (Suc lo) (arr[lo := word_of_int v]) = take lo arr @ [word_of_int v]"
    using lo by (simp add: take_Suc_conv_app_nth)
  also have "drop (Suc lo + n) (arr[lo := word_of_int v]) = drop (lo + Suc n) arr"
    using drop_update_cancel [of lo "Suc lo + n" arr "word_of_int v"] by simp
  finally show ?case
    by (simp add: r)
qed

text \<open>
  C10: for \<open>siz \<ge> 0\<close> and an array that holds \<open>siz div 8\<close> bytes,
  \<^verbatim>\<open>populateRandomBits\<close> replaces the first \<open>siz div 8\<close> bytes by the low bytes of the first
  \<open>siz div 8\<close> numbers of the generator seeded with the time, leaves every later byte as
  it was, and returns 0; for \<open>siz < 8\<close> the array is unchanged.
\<close>

theorem populate_rand_array_frame:
  assumes "0 \<le> siz" and "nat (siz div 8) \<le> length arr"
  shows "fst (ext_populate_rand_array srand rand now arr siz)
           = (map word_of_int (rand_draws rand (srand now) (nat (siz div 8))) @ drop (nat (siz div 8)) arr,
              rand_after rand (srand now) (nat (siz div 8)))
         \<and> snd (ext_populate_rand_array srand rand now arr siz) = 0
         \<and> (siz < 8 \<longrightarrow> fst (fst (ext_populate_rand_array srand rand now arr siz)) = arr)"
proof -
  have "fst (ext_populate_rand_array srand rand now arr siz)
      = fold (\<lambda>k (arr, g). let (v, g') = rand g in (arr[k := word_of_int v], g'))
          [0..<0 + nat (siz div 8)] (arr, srand now)"
    using assms(1) by (simp add: ext_populate_rand_array_def c_div_nonneg for_loop_nat)
  also have "\<dots> = (take 0 arr @ map word_of_int (rand_draws rand (srand now) (nat (siz div 8)))
                     @ drop (0 + nat (siz div 8)) arr, rand_after rand (srand now) (nat (siz div 8)))"
    using assms(2) by (intro rand_fold) simp
  finally have main: "fst (ext_populate_rand_array srand rand now arr siz)
           = (map word_of_int (rand_draws rand (srand now) (nat (siz div 8))) @ drop (nat (siz div 8)) arr,
              rand_after rand (srand now) (nat (siz div 8)))"
    by simp
  have small: "siz < 8 \<Longrightarrow> nat (siz div 8) = 0"
    using assms(1) by simp
  show ?thesis
    using main small by (auto simp: ext_populate_rand_array_def)
qed

theorem populate_rand_array_frame_witness:
  "fst (fst (ext_populate_rand_array (\<lambda>t. t) (\<lambda>g. (7 * g + 3, g + 1)) 5 [1, 2, 3, 4] 17))
     = [38, 45, 3, 4]
   \<and> fst (fst (ext_populate_rand_array (\<lambda>t. t) (\<lambda>g. (7 * g + 3, g + 1)) 5 [1, 2, 3, 4] 7))
     = [1, 2, 3, 4]"
  using populate_rand_array_frame [of 17 "[1, 2, 3, 4]" "\<lambda>t. t" "\<lambda>g. (7 * g + 3, g + 1)" 5]
    populate_rand_array_frame [of 7 "[1, 2, 3, 4]" "\<lambda>t. t" "\<lambda>g. (7 * g + 3, g + 1)" 5]
  by (simp add: numeral_2_eq_2)

end
